theory Spec2Isabelle
  imports Main "HOL-Library.AList"
begin

section \<open>JavaScript values\<close>

text \<open>
  The values that flow through \<^verbatim>\<open>src/validation.ts\<close> are JSON documents: schemas, request
  components, payloads. A JavaScript object is an association list in property order,
  read with \<^const>\<open>map_of\<close> and written with \<^const>\<open>AList.update\<close> (an existing key keeps its
  place, a new key goes last). \<^verbatim>\<open>undefined\<close> is \<^const>\<open>None\<close> of an option type. Numbers are
  carried around and never computed on. \<open>JFunction\<close> is a function object, the one value
  here that is not JSON: a plain object inherits some from \<^verbatim>\<open>Object.prototype\<close>.
\<close>

datatype json =
    JNull
  | JBool bool
  | JNum int
  | JStr string
  | JArr "json list"
  | JObj "(string \<times> json) list"
  | JFunction

type_synonym obj = "(string \<times> json) list"

text \<open>\<^verbatim>\<open>typeof v === 'object'\<close>: true of objects, arrays and \<^verbatim>\<open>null\<close>.\<close>

fun typeof_object :: "json \<Rightarrow> bool" where
  "typeof_object JNull = True"
| "typeof_object (JArr _) = True"
| "typeof_object (JObj _) = True"
| "typeof_object _ = False"

text \<open>\<^verbatim>\<open>typeof v === 'string'\<close>.\<close>

fun typeof_string :: "json \<Rightarrow> bool" where
  "typeof_string (JStr _) = True"
| "typeof_string _ = False"

text \<open>JavaScript truthiness, as used by \<^verbatim>\<open>a && b\<close> and \<^verbatim>\<open>if (a)\<close>.\<close>

fun truthy :: "json \<Rightarrow> bool" where
  "truthy JNull = False"
| "truthy (JBool b) = b"
| "truthy (JNum n) = (n \<noteq> 0)"
| "truthy (JStr s) = (s \<noteq> [])"
| "truthy (JArr _) = True"
| "truthy (JObj _) = True"
| "truthy JFunction = True"

text \<open>
  The names of the members of \<^verbatim>\<open>Object.prototype\<close>. A read \<^verbatim>\<open>data[k]\<close> of a plain object
  finds the object's own property first and an inherited member otherwise: the prototype
  itself under \<^verbatim>\<open>__proto__\<close>, an object without properties to enumerate, and a function
  under the other names.

  \<open>js_get\<close> is the read that Ajv does on the data it validates. What
  \<^verbatim>\<open>validation.ts\<close> itself reads under a fixed name (a media type, a location, a header)
  is read with \<^const>\<open>map_of\<close>: none of these names is a member of the prototype. The two
  registries, indexed by operationId, are maps: a key that was written is read back in
  JavaScript as in a map, a key that was never written is \<^verbatim>\<open>undefined\<close> in JavaScript
  unless it is one of these names. The properties of a location, written under the names
  of the parameters, are an association list, which is the object of JavaScript unless a
  parameter is called \<^verbatim>\<open>__proto__\<close>.
\<close>

definition Object_prototype :: "string list" where
  "Object_prototype =
     [''constructor'', ''__defineGetter__'', ''__defineSetter__'', ''hasOwnProperty'',
      ''__lookupGetter__'', ''__lookupSetter__'', ''isPrototypeOf'', ''propertyIsEnumerable'',
      ''toString'', ''valueOf'', ''__proto__'', ''toLocaleString'']"

definition js_get :: "obj \<Rightarrow> string \<Rightarrow> json option" where
  "js_get kvs k =
     (case map_of kvs k of
        Some v \<Rightarrow> Some v
      | None \<Rightarrow>
          if k = ''__proto__'' then Some (JObj [])
          else if k \<in> set Object_prototype then Some JFunction
          else None)"

text \<open>\<^verbatim>\<open>_.uniq\<close> keeps the first occurrence of every element.\<close>

definition uniq :: "'a list \<Rightarrow> 'a list" where
  "uniq xs = rev (remdups (rev xs))"

subsection \<open>Strings\<close>

function string_of_nat :: "nat \<Rightarrow> string" where
  "string_of_nat n =
     (if n < 10 then [char_of (48 + n)]
      else string_of_nat (n div 10) @ [char_of (48 + n mod 10)])"
  by pat_completeness auto
termination
  by (relation "measure id") auto

declare string_of_nat.simps [simp del]

definition string_of_int :: "int \<Rightarrow> string" where
  "string_of_int i = (if i < 0 then CHR ''-'' # string_of_nat (nat (- i)) else string_of_nat (nat i))"

text \<open>
  The built-in functions of JavaScript that \<^verbatim>\<open>validateRequest\<close> calls are parameters of
  the model: \<open>JSON_parse\<close> is \<^verbatim>\<open>JSON.parse\<close>, returning the value or the message of the
  error it throws, and \<open>ToString\<close> is the conversion of a value to a string, which for a
  number is the shortest text that reads back as the same double.
\<close>

record js_builtins =
  JSON_parse :: "string \<Rightarrow> string + json"
  ToString :: "json \<Rightarrow> string"

text \<open>The template literal \<^verbatim>\<open>`${v}`\<close>: a string as it is, a boolean by name.\<close>

fun template_literal :: "js_builtins \<Rightarrow> json \<Rightarrow> string" where
  "template_literal js (JStr s) = s"
| "template_literal js (JBool b) = (if b then ''true'' else ''false'')"
| "template_literal js v = ToString js v"

section \<open>The Ajv library\<close>

text \<open>
  Ajv is an external library. \<^verbatim>\<open>validation.ts\<close> hands it three kinds of schema:
  a schema object of the API definition as it is, the object schemas it writes itself
  (\<^verbatim>\<open>type: 'object'\<close> with \<^verbatim>\<open>properties\<close>, \<^verbatim>\<open>required\<close>, \<^verbatim>\<open>additionalProperties\<close>
  and an optional \<^verbatim>\<open>title\<close>), and \<^verbatim>\<open>{ oneOf: [...] }\<close>.
\<close>

datatype schema =
    SchemaObject "json option"
  | ObjectSchema (title: "string option") (additionalProperties: bool)
      (properties: "(string \<times> schema) list") (required: "string list")
  | OneOfSchema (oneOf: "schema list")

text \<open>The two options of \<^verbatim>\<open>Ajv.Options\<close> that the model distinguishes.\<close>

record ajv_opts =
  allErrors :: bool
  coerceTypes :: bool

text \<open>\<^verbatim>\<open>Ajv.ErrorObject\<close>.\<close>

record error_object =
  keyword :: string
  dataPath :: string
  schemaPath :: string
  eparams :: json
  message :: string

text \<open>
  What Ajv does with a schema object of the API definition is a parameter of the model:
  \<open>schema_ok\<close> says whether \<^verbatim>\<open>compile\<close> accepts it, \<open>has_rules\<close> whether it holds a
  keyword that Ajv validates (an empty schema such as \<^verbatim>\<open>{}\<close> holds none), \<open>run_schema\<close>
  validates a value against it and returns the value (rewritten where an option such as
  \<^verbatim>\<open>coerceTypes\<close> makes Ajv rewrite it) with the errors found, their paths relative to
  the schema and the value (the schema path without the leading \<^verbatim>\<open>#\<close>). No errors means
  valid.
\<close>

record ajv_engine =
  schema_ok :: "ajv_opts \<Rightarrow> json option \<Rightarrow> bool"
  has_rules :: "ajv_opts \<Rightarrow> json option \<Rightarrow> bool"
  run_schema :: "ajv_opts \<Rightarrow> json option \<Rightarrow> json \<Rightarrow> json \<times> error_object list"

subsection \<open>Paths in error objects\<close>

text \<open>\<^verbatim>\<open>util.escapeQuotes\<close>: backslash-escapes quotes, backslashes and control characters.\<close>

fun escapeQuotes :: "string \<Rightarrow> string" where
  "escapeQuotes [] = []"
| "escapeQuotes (c # cs) =
     (if c = CHR 0x27 \<or> c = CHR 0x5C then CHR 0x5C # c # escapeQuotes cs
      else if c = CHR 0x0A then CHR 0x5C # CHR ''n'' # escapeQuotes cs
      else if c = CHR 0x0D then CHR 0x5C # CHR ''r'' # escapeQuotes cs
      else if c = CHR 0x0C then CHR 0x5C # CHR ''f'' # escapeQuotes cs
      else if c = CHR 0x09 then CHR 0x5C # CHR ''t'' # escapeQuotes cs
      else c # escapeQuotes cs)"

definition is_alpha :: "char \<Rightarrow> bool" where
  "is_alpha c = (let n = (of_char c :: nat) in (65 \<le> n \<and> n \<le> 90) \<or> (97 \<le> n \<and> n \<le> 122))"

definition is_digit :: "char \<Rightarrow> bool" where
  "is_digit c = (let n = (of_char c :: nat) in 48 \<le> n \<and> n \<le> 57)"

text \<open>The regular expression \<^verbatim>\<open>/^[a-z$_][a-z$_0-9]*$/i\<close>.\<close>

definition IDENTIFIER :: "string \<Rightarrow> bool" where
  "IDENTIFIER s =
     (case s of [] \<Rightarrow> False
      | c # cs \<Rightarrow> (is_alpha c \<or> c = CHR ''$'' \<or> c = CHR ''_'') \<and>
          list_all (\<lambda>d. is_alpha d \<or> is_digit d \<or> d = CHR ''$'' \<or> d = CHR ''_'') cs)"

text \<open>\<^verbatim>\<open>util.getProperty\<close>: the data path segment of a property.\<close>

definition getProperty :: "string \<Rightarrow> string" where
  "getProperty k = (if IDENTIFIER k then CHR ''.'' # k else ''['' @ [CHR 0x27] @ escapeQuotes k @ [CHR 0x27] @ '']'')"

definition hex_digit :: "nat \<Rightarrow> char" where
  "hex_digit n = (if n < 10 then char_of (48 + n) else char_of (55 + n))"

text \<open>\<^verbatim>\<open>encodeURIComponent\<close> on the bytes of a string.\<close>

definition uri_unreserved :: "char \<Rightarrow> bool" where
  "uri_unreserved c = (is_alpha c \<or> is_digit c \<or> c \<in> set (''-_.!~*()'' @ [CHR 0x27]))"

fun encodeURIComponent :: "string \<Rightarrow> string" where
  "encodeURIComponent [] = []"
| "encodeURIComponent (c # cs) =
     (if uri_unreserved c then c # encodeURIComponent cs
      else CHR ''%'' # hex_digit (of_char c div 16) # hex_digit (of_char c mod 16) # encodeURIComponent cs)"

fun escapeJsonPointer :: "string \<Rightarrow> string" where
  "escapeJsonPointer [] = []"
| "escapeJsonPointer (c # cs) =
     (if c = CHR ''~'' then ''~0'' @ escapeJsonPointer cs
      else if c = CHR ''/'' then ''~1'' @ escapeJsonPointer cs
      else c # escapeJsonPointer cs)"

text \<open>\<^verbatim>\<open>util.escapeFragment\<close>: the schema path segment of a property.\<close>

definition escapeFragment :: "string \<Rightarrow> string" where
  "escapeFragment k = encodeURIComponent (escapeJsonPointer k)"

text \<open>An error of a subschema, moved to where the subschema sits.\<close>

definition relocate :: "string \<Rightarrow> string \<Rightarrow> error_object \<Rightarrow> error_object" where
  "relocate dp sp e = e\<lparr>dataPath := dp @ dataPath e, schemaPath := sp @ schemaPath e\<rparr>"

subsection \<open>The errors of the keywords that validation.ts writes\<close>

definition type_error :: "string \<Rightarrow> string \<Rightarrow> string \<Rightarrow> error_object" where
  "type_error dp sp t =
     \<lparr>keyword = ''type'', dataPath = dp, schemaPath = sp @ ''/type'',
      eparams = JObj [(''type'', JStr t)], message = ''should be '' @ t\<rparr>"

text \<open>
  The error of \<^verbatim>\<open>required\<close>. What it shows as the missing property is the name of the
  property, or its path segment (\<^verbatim>\<open>.name\<close>) where the keyword \<^verbatim>\<open>required\<close> itself finds
  the property missing and Ajv stops at the first error.
\<close>

definition required_error :: "string \<Rightarrow> string \<Rightarrow> string \<Rightarrow> error_object" where
  "required_error dp sp shown =
     \<lparr>keyword = ''required'', dataPath = dp, schemaPath = sp @ ''/required'',
      eparams = JObj [(''missingProperty'', JStr shown)],
      message = ''should have required property '' @ [CHR 0x27] @ shown @ [CHR 0x27]\<rparr>"

definition additional_error :: "string \<Rightarrow> string \<Rightarrow> string \<Rightarrow> error_object" where
  "additional_error dp sp k =
     \<lparr>keyword = ''additionalProperties'', dataPath = dp, schemaPath = sp @ ''/additionalProperties'',
      eparams = JObj [(''additionalProperty'', JStr k)],
      message = ''should NOT have additional properties''\<rparr>"

definition oneOf_error :: "string \<Rightarrow> string \<Rightarrow> json \<Rightarrow> error_object" where
  "oneOf_error dp sp passing =
     \<lparr>keyword = ''oneOf'', dataPath = dp, schemaPath = sp @ ''/oneOf'',
      eparams = JObj [(''passingSchemas'', passing)],
      message = ''should match exactly one schema in oneOf''\<rparr>"

subsection \<open>Validation\<close>

text \<open>
  Ajv compiles a schema into a function: given the data path and the schema path at which
  it runs and a value, it returns the value (rewritten where a subschema rewrote it) and
  the errors. Without \<^verbatim>\<open>allErrors\<close> the first failing keyword ends the validation of a
  schema.

  For an object schema Ajv checks, in this order: \<^verbatim>\<open>type\<close>; \<^verbatim>\<open>required\<close>, for the
  required names that have no schema with rules under \<^verbatim>\<open>properties\<close>;
  \<^verbatim>\<open>additionalProperties\<close>, over the object's own keys; \<^verbatim>\<open>properties\<close>, where every
  property whose schema has rules is validated if the object has it, and reported as
  missing if the object lacks it and \<^verbatim>\<open>required\<close> names it.
\<close>

type_synonym validator = "string \<Rightarrow> string \<Rightarrow> json \<Rightarrow> json \<times> error_object list"

text \<open>A value that a subschema rewrote is stored; nothing is written otherwise.\<close>

definition store :: "string \<Rightarrow> json \<Rightarrow> json \<Rightarrow> obj \<Rightarrow> obj" where
  "store k v v' kvs = (if v' = v then kvs else AList.update k v' kvs)"

text \<open>The keyword \<^verbatim>\<open>properties\<close>, over the properties whose schema has rules.\<close>

fun properties_code :: "ajv_opts \<Rightarrow> string list \<Rightarrow> (string \<times> validator) list \<Rightarrow> string \<Rightarrow> string \<Rightarrow> obj
    \<Rightarrow> obj \<times> error_object list" where
  "properties_code opts req [] dp sp kvs = (kvs, [])"
| "properties_code opts req ((k, f) # ps) dp sp kvs =
     (case js_get kvs k of
        None \<Rightarrow>
          if k \<in> set req then
            (if allErrors opts then
               (case properties_code opts req ps dp sp kvs of
                  (kvs', es') \<Rightarrow> (kvs', required_error dp sp k # es'))
             else (kvs, [required_error dp sp k]))
          else properties_code opts req ps dp sp kvs
      | Some v \<Rightarrow>
          (case f (dp @ getProperty k) (sp @ ''/properties/'' @ escapeFragment k) v of
             (v', es) \<Rightarrow>
               if es \<noteq> [] \<and> \<not> allErrors opts then (store k v v' kvs, es)
               else
                 (case properties_code opts req ps dp sp (store k v v' kvs) of
                    (kvs', es') \<Rightarrow> (kvs', es @ es'))))"

text \<open>
  The required names that the keyword \<^verbatim>\<open>required\<close> checks itself: all of them when
  \<^verbatim>\<open>properties\<close> is empty, otherwise those without a schema with rules.
\<close>

definition required_early :: "string list \<Rightarrow> string list \<Rightarrow> string list \<Rightarrow> string list" where
  "required_early names ruled req =
     (if names = [] then req else filter (\<lambda>k. k \<notin> set ruled) req)"

text \<open>
  \<open>object_code opts ap names rules req\<close>: \<open>names\<close> are the names under
  \<^verbatim>\<open>properties\<close>, \<open>rules\<close> the compiled schemas of those whose schema has rules.
\<close>

definition object_code :: "ajv_opts \<Rightarrow> bool \<Rightarrow> string list \<Rightarrow> (string \<times> validator) list \<Rightarrow> string list \<Rightarrow> validator" where
  "object_code opts ap names rules req dp sp d =
     (case d of
        JObj kvs \<Rightarrow>
          (let missing = filter (\<lambda>k. js_get kvs k = None) (required_early names (map fst rules) req);
               e_req = (if allErrors opts then map (required_error dp sp) missing
                        else map (\<lambda>k. required_error dp sp (getProperty k)) (take 1 missing));
               e_add = (if ap then []
                        else map (additional_error dp sp)
                               (filter (\<lambda>k. k \<notin> set names) (map fst kvs)))
           in if allErrors opts then
                (case properties_code opts req rules dp sp kvs of
                   (kvs', e_props) \<Rightarrow> (JObj kvs', e_req @ e_add @ e_props))
              else if e_req \<noteq> [] then (d, e_req)
              else if e_add \<noteq> [] then (d, take 1 e_add)
              else
                (case properties_code opts req rules dp sp kvs of
                   (kvs', e_props) \<Rightarrow> (JObj kvs', e_props)))
      | _ \<Rightarrow> (d, [type_error dp sp ''object'']))"

text \<open>
  The loop of \<^verbatim>\<open>oneOf\<close> from subschema \<open>i\<close> on: \<open>prevValid\<close> says that an earlier
  subschema passed, \<open>passing\<close> is \<^verbatim>\<open>passingSchemas\<close>. The loop stops at the second
  subschema that passes. It returns the value, the errors of the subschemas that failed,
  \<^verbatim>\<open>valid\<close> (exactly one passed) and \<^verbatim>\<open>passingSchemas\<close>.
\<close>

fun oneOf_loop :: "validator list \<Rightarrow> nat \<Rightarrow> string \<Rightarrow> string \<Rightarrow> json \<Rightarrow> bool \<Rightarrow> json
    \<Rightarrow> json \<times> error_object list \<times> bool \<times> json" where
  "oneOf_loop [] i dp sp d prevValid passing = (d, [], prevValid, passing)"
| "oneOf_loop (f # fs) i dp sp d prevValid passing =
     (case f dp (sp @ ''/oneOf/'' @ string_of_nat i) d of
        (d', es) \<Rightarrow>
          if es = [] \<and> prevValid then (d', [], False, JArr [passing, JNum (int i)])
          else
            (case oneOf_loop fs (Suc i) dp sp d' (prevValid \<or> es = [])
                    (if es = [] then JNum (int i) else passing) of
               (d'', es', valid, passing') \<Rightarrow> (d'', es @ es', valid, passing')))"

definition oneOf_code :: "validator list \<Rightarrow> validator" where
  "oneOf_code fs dp sp d =
     (case oneOf_loop fs 0 dp sp d False JNull of
        (d', subs, valid, passing) \<Rightarrow>
          if valid then (d', []) else (d', subs @ [oneOf_error dp sp passing]))"

text \<open>
  Whether a schema has rules: the schemas that \<^verbatim>\<open>validation.ts\<close> writes have keywords,
  for a schema object of the definition Ajv looks.
\<close>

fun nonEmptySchema :: "ajv_engine \<Rightarrow> ajv_opts \<Rightarrow> schema \<Rightarrow> bool" where
  "nonEmptySchema e opts (SchemaObject j) = has_rules e opts j"
| "nonEmptySchema e opts (ObjectSchema t ap props req) = True"
| "nonEmptySchema e opts (OneOfSchema ss) = True"

definition rules_of :: "bool list \<Rightarrow> (string \<times> validator) list \<Rightarrow> (string \<times> validator) list" where
  "rules_of flags compiled = map snd (filter fst (zip flags compiled))"

primrec ajv_code :: "ajv_engine \<Rightarrow> ajv_opts \<Rightarrow> schema \<Rightarrow> validator" where
  "ajv_code e opts (SchemaObject j) =
     (\<lambda>dp sp d. case run_schema e opts j d of (d', es) \<Rightarrow> (d', map (relocate dp sp) es))"
| "ajv_code e opts (ObjectSchema t ap props req) =
     object_code opts ap (map fst props)
       (rules_of (map (\<lambda>p. nonEmptySchema e opts (snd p)) props)
          (map (map_prod id (ajv_code e opts)) props))
       req"
| "ajv_code e opts (OneOfSchema ss) = oneOf_code (map (ajv_code e opts) ss)"

text \<open>
  Whether \<^verbatim>\<open>compile\<close> accepts a schema: Ajv checks it against the draft-07 meta-schema,
  where \<^verbatim>\<open>required\<close> has unique items and \<^verbatim>\<open>oneOf\<close> at least one.
\<close>

primrec ajv_schema_ok :: "ajv_engine \<Rightarrow> ajv_opts \<Rightarrow> schema \<Rightarrow> bool" where
  "ajv_schema_ok e opts (SchemaObject j) = schema_ok e opts j"
| "ajv_schema_ok e opts (ObjectSchema t ap props req) =
     (distinct req \<and> list_all snd (map (map_prod id (ajv_schema_ok e opts)) props))"
| "ajv_schema_ok e opts (OneOfSchema ss) =
     (ss \<noteq> [] \<and> list_all id (map (ajv_schema_ok e opts) ss))"

subsection \<open>Compiled validation functions\<close>

text \<open>
  \<^verbatim>\<open>Ajv.ValidateFunction\<close>: a function object that keeps the schema it was compiled from
  in \<^verbatim>\<open>validate.schema\<close> and the errors of its last call in \<^verbatim>\<open>validate.errors\<close>
  (\<^verbatim>\<open>null\<close> after a call that found none).
\<close>

record validate_function =
  vschema :: schema
  run :: "json \<Rightarrow> json \<times> error_object list"
  errors :: "error_object list option"

datatype js_error = Error string | TypeError | AjvCompileError

text \<open>\<^verbatim>\<open>new Ajv(opts).compile(schema)\<close>; it throws on a schema that is not valid.\<close>

definition compile :: "ajv_engine \<Rightarrow> ajv_opts \<Rightarrow> schema \<Rightarrow> js_error + validate_function" where
  "compile e opts s =
     (if ajv_schema_ok e opts s
      then Inr \<lparr>vschema = s, run = ajv_code e opts s [] ''#'', errors = None\<rparr>
      else Inl AjvCompileError)"

text \<open>
  A call \<^verbatim>\<open>validate(data)\<close>: the value as the call leaves it, and the function object
  with \<^verbatim>\<open>errors\<close> set.
\<close>

definition call_validate :: "validate_function \<Rightarrow> json \<Rightarrow> json \<times> validate_function" where
  "call_validate validate d =
     (case run validate d of
        (d', es) \<Rightarrow> (d', validate\<lparr>errors := (if es = [] then None else Some es)\<rparr>))"

section \<open>Operations, requests and the router\<close>

text \<open>
  The types of \<^verbatim>\<open>openapi-types\<close> and of \<^verbatim>\<open>./router\<close>, with the fields that
  \<^verbatim>\<open>validation.ts\<close> reads. Parameters are dereferenced; \<^verbatim>\<open>in\<close> is one of the four
  locations of OpenAPI 3. The field \<open>op_method\<close> is \<^verbatim>\<open>method\<close>, \<open>definition_doc\<close> further down
  is \<^verbatim>\<open>definition\<close>.
\<close>

datatype location = Path | Query | Header | Cookie

fun location_name :: "location \<Rightarrow> string" where
  "location_name Path = ''path''"
| "location_name Query = ''query''"
| "location_name Header = ''header''"
| "location_name Cookie = ''cookie''"

record parameter =
  param_name :: string
  param_in :: location
  param_required :: bool
  param_schema :: "json option"

record media_type =
  media_schema :: "json option"

record request_body =
  rb_content :: "(string \<times> media_type) list"

record response =
  resp_content :: "(string \<times> media_type) list option"

record operation =
  operationId :: "string option"
  path :: string
  op_method :: string
  parameters :: "parameter list"
  requestBody :: "request_body option"
  responses :: "(string \<times> response) list option"

record request =
  req_method :: string
  req_path :: string
  req_headers :: obj
  req_query :: "json option"
  body :: "json option"

text \<open>What \<^verbatim>\<open>router.parseRequest\<close> returns, as far as \<^verbatim>\<open>validateRequest\<close> reads it.\<close>

record parsed_request =
  params :: "obj option"
  query :: "obj option"
  headers :: obj
  cookies :: "obj option"
  parsed_requestBody :: "json option"

text \<open>
  \<^verbatim>\<open>OpenAPIRouter\<close> lives in \<^verbatim>\<open>./router\<close>, outside the validator: its four methods
  are parameters of the model.
\<close>

record router =
  getOperations :: "operation list"
  getOperation :: "string \<Rightarrow> operation option"
  matchOperation :: "request \<Rightarrow> operation option"
  parseRequest :: "request \<Rightarrow> string \<Rightarrow> parsed_request"

text \<open>The second argument of \<^verbatim>\<open>validateRequest\<close> and \<^verbatim>\<open>validateResponse\<close>.\<close>

datatype operation_arg = OperationId string | OperationObject operation

section \<open>The class OpenAPIValidator\<close>

record ValidationResult =
  valid :: bool
  verrors :: "error_object list option"

record OpenAPIValidator =
  definition_doc :: json
  ajvOpts :: ajv_opts
  requestValidators :: "string \<rightharpoonup> validate_function list"
  responseValidators :: "string \<rightharpoonup> validate_function"
  router :: router

text \<open>
  The property key that \<^verbatim>\<open>this.requestValidators[operationId]\<close> writes: JavaScript turns
  an \<^verbatim>\<open>undefined\<close> key into the string \<^verbatim>\<open>'undefined'\<close>.
\<close>

definition registry_key :: "string option \<Rightarrow> string" where
  "registry_key opId = (case opId of None \<Rightarrow> ''undefined'' | Some s \<Rightarrow> s)"

definition getRequestValidatorsForOperation :: "OpenAPIValidator \<Rightarrow> string \<Rightarrow> validate_function list option" where
  "getRequestValidatorsForOperation this opId = requestValidators this opId"

definition getResponseValidatorForOperation :: "OpenAPIValidator \<Rightarrow> string \<Rightarrow> validate_function option" where
  "getResponseValidatorForOperation this opId = responseValidators this opId"

subsection \<open>buildRequestValidatorsForOperation\<close>

text \<open>The literal \<^verbatim>\<open>requestBodySchema\<close>, after the push to \<^verbatim>\<open>required\<close>.\<close>

definition requestBodySchema :: "request_body \<Rightarrow> json \<Rightarrow> schema" where
  "requestBodySchema rb sch =
     ObjectSchema (Some ''Request'') True [(''requestBody'', SchemaObject (Some sch))]
       (if length (map fst (rb_content rb)) = 1 then [''requestBody''] else [])"

text \<open>The literal \<^verbatim>\<open>paramsSchema\<close>, before the parameters are entered.\<close>

definition paramsSchema_literal :: schema where
  "paramsSchema_literal =
     ObjectSchema (Some ''Request'') True
       [(''path'', ObjectSchema None False [] []),
        (''query'', ObjectSchema None False [] []),
        (''header'', ObjectSchema None True [] []),
        (''cookie'', ObjectSchema None True [] [])]
       []"

text \<open>
  The body of \<^verbatim>\<open>parameters.map\<close>: \<open>target\<close> is \<^verbatim>\<open>paramsSchema.properties[param.in]\<close>.
  The literal has the four locations, so the lookup finds an object schema.
\<close>

definition add_parameter :: "schema \<Rightarrow> parameter \<Rightarrow> schema" where
  "add_parameter paramsSchema param =
     (case map_of (properties paramsSchema) (location_name (param_in param)) of
        Some target \<Rightarrow>
          (let target_required =
                 (if param_required param then required target @ [param_name param]
                  else required target);
               top_required =
                 (if param_required param
                  then uniq (required paramsSchema @ [location_name (param_in param)])
                  else required paramsSchema);
               target_properties =
                 AList.update (param_name param) (SchemaObject (param_schema param)) (properties target)
           in ObjectSchema (title paramsSchema) (additionalProperties paramsSchema)
                (AList.update (location_name (param_in param))
                   (ObjectSchema (title target) (additionalProperties target) target_properties
                      target_required)
                   (properties paramsSchema))
                top_required)
      | None \<Rightarrow> paramsSchema)"

definition paramsSchema :: "operation \<Rightarrow> schema" where
  "paramsSchema operation = foldl add_parameter paramsSchema_literal (parameters operation)"

text \<open>Lines 252 to 274: the list \<^verbatim>\<open>validators\<close> before the parameter validator.\<close>

definition body_validators :: "ajv_engine \<Rightarrow> ajv_opts \<Rightarrow> operation \<Rightarrow> js_error + validate_function list" where
  "body_validators e opts operation =
     (case requestBody operation of
        None \<Rightarrow> Inr []
      | Some rb \<Rightarrow>
          (case map_of (rb_content rb) ''application/json'' of
             None \<Rightarrow> Inr []
           | Some jsonbody \<Rightarrow>
               (case media_schema jsonbody of
                  None \<Rightarrow> Inr []
                | Some sch \<Rightarrow>
                    if truthy sch then
                      (case compile e opts (requestBodySchema rb sch) of
                         Inl err \<Rightarrow> Inl err
                       | Inr requstBodyValidator \<Rightarrow> Inr [requstBodyValidator])
                    else Inr [])))"

text \<open>The list \<^verbatim>\<open>validators\<close> at the end of the function.\<close>

definition request_validators :: "ajv_engine \<Rightarrow> ajv_opts \<Rightarrow> operation \<Rightarrow> js_error + validate_function list" where
  "request_validators e opts operation =
     (case body_validators e opts operation of
        Inl err \<Rightarrow> Inl err
      | Inr validators \<Rightarrow>
          (case compile e (opts\<lparr>coerceTypes := True\<rparr>) (paramsSchema operation) of
             Inl err \<Rightarrow> Inl err
           | Inr paramsValidator \<Rightarrow> Inr (validators @ [paramsValidator])))"

definition buildRequestValidatorsForOperation ::
    "ajv_engine \<Rightarrow> OpenAPIValidator \<Rightarrow> operation \<Rightarrow> js_error + OpenAPIValidator" where
  "buildRequestValidatorsForOperation e this operation =
     (case request_validators e (ajvOpts this) operation of
        Inl err \<Rightarrow> Inl err
      | Inr validators \<Rightarrow>
          Inr (this\<lparr>requestValidators :=
                 (requestValidators this)(registry_key (operationId operation) \<mapsto> validators)\<rparr>))"

subsection \<open>buildResponseValidatorForOperation\<close>

text \<open>The callback of \<^verbatim>\<open>_.mapKeys\<close>: what one response adds to \<^verbatim>\<open>responseSchemas\<close>.\<close>

definition response_schema :: "response \<Rightarrow> json list" where
  "response_schema response =
     (case resp_content response of
        None \<Rightarrow> []
      | Some content \<Rightarrow>
          (case map_of content ''application/json'' of
             None \<Rightarrow> []
           | Some media \<Rightarrow>
               (case media_schema media of
                  None \<Rightarrow> []
                | Some sch \<Rightarrow> if truthy sch then [sch] else [])))"

definition responseSchemas :: "(string \<times> response) list \<Rightarrow> json list" where
  "responseSchemas rs = concat (map (\<lambda>(status, response). response_schema response) rs)"

text \<open>The validator that the function registers, if it registers one.\<close>

definition response_validator :: "ajv_engine \<Rightarrow> ajv_opts \<Rightarrow> operation \<Rightarrow> js_error + validate_function option" where
  "response_validator e opts operation =
     (case responses operation of
        None \<Rightarrow> Inr None
      | Some rs \<Rightarrow>
          if responseSchemas rs = [] then Inr None
          else
            (case compile e opts
                    (OneOfSchema (map (\<lambda>sch. SchemaObject (Some sch)) (responseSchemas rs))) of
               Inl err \<Rightarrow> Inl err
             | Inr validator \<Rightarrow> Inr (Some validator)))"

definition buildResponseValidatorForOperation ::
    "ajv_engine \<Rightarrow> OpenAPIValidator \<Rightarrow> operation \<Rightarrow> js_error + OpenAPIValidator" where
  "buildResponseValidatorForOperation e this operation =
     (case response_validator e (ajvOpts this) operation of
        Inl err \<Rightarrow> Inl err
      | Inr None \<Rightarrow> Inr this
      | Inr (Some validator) \<Rightarrow>
          Inr (this\<lparr>responseValidators :=
                 (responseValidators this)(registry_key (operationId operation) \<mapsto> validator)\<rparr>))"

subsection \<open>The constructor\<close>

text \<open>\<^verbatim>\<open>operations.map(f)\<close> for an \<open>f\<close> that updates \<^verbatim>\<open>this\<close> and may throw.\<close>

fun for_each :: "('s \<Rightarrow> 'a \<Rightarrow> js_error + 's) \<Rightarrow> 'a list \<Rightarrow> 's \<Rightarrow> js_error + 's" where
  "for_each f [] s = Inr s"
| "for_each f (x # xs) s = (case f s x of Inl err \<Rightarrow> Inl err | Inr s' \<Rightarrow> for_each f xs s')"

text \<open>\<^verbatim>\<open>opts.ajvOpts || {}\<close>: no option set.\<close>

definition default_ajvOpts :: ajv_opts where
  "default_ajvOpts = \<lparr>allErrors = False, coerceTypes = False\<rparr>"

definition new_OpenAPIValidator ::
    "(json \<Rightarrow> router) \<Rightarrow> ajv_engine \<Rightarrow> json \<Rightarrow> ajv_opts option \<Rightarrow> js_error + OpenAPIValidator" where
  "new_OpenAPIValidator OpenAPIRouter e definition_arg ajvOpts_arg =
     (let this = \<lparr>definition_doc = definition_arg,
                  ajvOpts = (case ajvOpts_arg of None \<Rightarrow> default_ajvOpts | Some opts \<Rightarrow> opts),
                  requestValidators = Map.empty,
                  responseValidators = Map.empty,
                  router = OpenAPIRouter definition_arg\<rparr>;
          operations = getOperations (router this)
      in case for_each (buildRequestValidatorsForOperation e) operations this of
           Inl err \<Rightarrow> Inl err
         | Inr this' \<Rightarrow> for_each (buildResponseValidatorForOperation e) operations this')"

subsection \<open>validateRequest\<close>

text \<open>
  Lines 105 to 109: a missing argument and the empty string are falsy and go to
  \<^verbatim>\<open>matchOperation\<close>, any other string goes to \<^verbatim>\<open>getOperation\<close>.
\<close>

definition resolve_request_operation :: "OpenAPIValidator \<Rightarrow> request \<Rightarrow> operation_arg option \<Rightarrow> operation option" where
  "resolve_request_operation this req arg =
     (case arg of
        None \<Rightarrow> matchOperation (router this) req
      | Some (OperationId s) \<Rightarrow>
          if s = [] then matchOperation (router this) req else getOperation (router this) s
      | Some (OperationObject operation) \<Rightarrow> Some operation)"

text \<open>\<^verbatim>\<open>(schema as OpenAPIV3.SchemaObject).type === 'array'\<close>.\<close>

fun schema_type_is_array :: "json \<Rightarrow> bool" where
  "schema_type_is_array (JObj kvs) = (map_of kvs ''type'' = Some (JStr ''array''))"
| "schema_type_is_array _ = False"

text \<open>
  Lines 125 to 128: \<^verbatim>\<open>_.find(operation.parameters, { name, in: 'query' })\<close> is the first
  query parameter of that name; the test is that it has a schema of type array.
\<close>

definition array_query_parameter :: "operation \<Rightarrow> string \<Rightarrow> bool" where
  "array_query_parameter operation name =
     (case find (\<lambda>p. param_name p = name \<and> param_in p = Query) (parameters operation) of
        None \<Rightarrow> False
      | Some operationParameter \<Rightarrow>
          (case param_schema operationParameter of
             None \<Rightarrow> False
           | Some sch \<Rightarrow> truthy sch \<and> schema_type_is_array sch))"

text \<open>Lines 123 to 133: the loop over \<^verbatim>\<open>_.entries(query)\<close>, writing into \<^verbatim>\<open>query\<close>.\<close>

definition query_to_arrays :: "operation \<Rightarrow> obj \<Rightarrow> obj" where
  "query_to_arrays operation q =
     foldl (\<lambda>acc (name, val).
              if typeof_string val \<and> array_query_parameter operation name
              then AList.update name (JArr [val]) acc else acc)
       q q"

text \<open>Lines 135 to 143: \<^verbatim>\<open>_.omitBy({ path, query, header, cookie }, _.isNil)\<close>.\<close>

definition input_parameters :: "obj option \<Rightarrow> obj option \<Rightarrow> obj \<Rightarrow> obj option \<Rightarrow> obj" where
  "input_parameters ps q hs cs =
     (case ps of None \<Rightarrow> [] | Some p \<Rightarrow> [(''path'', JObj p)]) @
     (case q of None \<Rightarrow> [] | Some p \<Rightarrow> [(''query'', JObj p)]) @
     [(''header'', JObj hs)] @
     (case cs of None \<Rightarrow> [] | Some p \<Rightarrow> [(''cookie'', JObj p)])"

definition parse_error :: "string \<Rightarrow> error_object" where
  "parse_error msg =
     \<lparr>keyword = ''parse'', dataPath = [], schemaPath = ''#/requestBody'',
      eparams = JArr [], message = msg\<rparr>"

text \<open>\<^verbatim>\<open>_.keys(_.get(operation, 'requestBody.content', {}))\<close>.\<close>

definition payloadFormats :: "operation \<Rightarrow> string list" where
  "payloadFormats operation =
     (case requestBody operation of None \<Rightarrow> [] | Some rb \<Rightarrow> map fst (rb_content rb))"

text \<open>Lines 145 to 161: what the check of a raw body pushes to \<^verbatim>\<open>result.errors\<close>.\<close>

definition malformed_body_errors :: "js_builtins \<Rightarrow> operation \<Rightarrow> json option \<Rightarrow> error_object list" where
  "malformed_body_errors js operation req_body =
     (case req_body of
        None \<Rightarrow> []
      | Some b \<Rightarrow>
          if \<not> typeof_object b then
            (if length (payloadFormats operation) = 1 \<and>
                payloadFormats operation ! 0 = ''application/json''
             then (case JSON_parse js (template_literal js b) of
                     Inl msg \<Rightarrow> [parse_error msg]
                   | Inr _ \<Rightarrow> [])
             else [])
          else [])"

text \<open>
  Lines 163 to 166. Storing \<^verbatim>\<open>undefined\<close> under \<^verbatim>\<open>requestBody\<close> leaves the property
  without a value, which is how Ajv reads it too: the model stores nothing then.
\<close>

definition attach_requestBody :: "json option \<Rightarrow> obj \<Rightarrow> obj \<Rightarrow> obj" where
  "attach_requestBody rb hs ps =
     (if (case rb of None \<Rightarrow> False | Some b \<Rightarrow> typeof_object b) \<or>
         map_of hs ''content-type'' = Some (JStr ''application/json'')
      then (case rb of None \<Rightarrow> ps | Some b \<Rightarrow> AList.update ''requestBody'' b ps)
      else ps)"

text \<open>
  Lines 169 to 174: every validator is called on \<^verbatim>\<open>parameters\<close>, which the call may
  rewrite, and its errors are pushed. The function objects come back with their
  \<^verbatim>\<open>errors\<close> set.
\<close>

fun run_validators :: "validate_function list \<Rightarrow> json \<Rightarrow> error_object list
    \<Rightarrow> validate_function list \<times> json \<times> error_object list" where
  "run_validators [] d errs = ([], d, errs)"
| "run_validators (validate # rest) d errs =
     (case call_validate validate d of
        (d', validate') \<Rightarrow>
          (case run_validators rest d'
                  (case errors validate' of None \<Rightarrow> errs | Some es \<Rightarrow> errs @ es) of
             (rest', d'', errs') \<Rightarrow> (validate' # rest', d'', errs')))"

text \<open>Lines 176 to 183 and 218 to 225.\<close>

definition finish_result :: "error_object list \<Rightarrow> ValidationResult" where
  "finish_result errs =
     (if errs = [] then \<lparr>valid = True, verrors = None\<rparr>
      else \<lparr>valid = False, verrors = Some errs\<rparr>)"

text \<open>The object \<^verbatim>\<open>parameters\<close> as the validators receive it.\<close>

definition request_parameters :: "operation \<Rightarrow> parsed_request \<Rightarrow> obj" where
  "request_parameters operation parsed =
     attach_requestBody (parsed_requestBody parsed) (headers parsed)
       (input_parameters (params parsed) (map_option (query_to_arrays operation) (query parsed))
          (headers parsed) (cookies parsed))"

text \<open>
  The result and the validator after the call, or what was thrown. Iterating over
  \<^verbatim>\<open>undefined\<close>, when the registry has nothing under \<^verbatim>\<open>operationId\<close>, is a TypeError.
\<close>

definition validateRequest ::
    "js_builtins \<Rightarrow> OpenAPIValidator \<Rightarrow> request \<Rightarrow> operation_arg option
     \<Rightarrow> js_error + (ValidationResult \<times> OpenAPIValidator)" where
  "validateRequest js this req arg =
     (case resolve_request_operation this req arg of
        None \<Rightarrow> Inl (Error ''Unknown operation'')
      | Some operation \<Rightarrow>
          (case operationId operation of
             None \<Rightarrow> Inl (Error ''Unknown operation'')
           | Some opId \<Rightarrow>
               if opId = [] then Inl (Error ''Unknown operation'')
               else
                 (let parsed = parseRequest (router this) req (path operation);
                      parameters_obj = request_parameters operation parsed;
                      errs = malformed_body_errors js operation (body req)
                  in case getRequestValidatorsForOperation this opId of
                       None \<Rightarrow> Inl TypeError
                     | Some validators \<Rightarrow>
                         (case run_validators validators (JObj parameters_obj) errs of
                            (validators', d, errs') \<Rightarrow>
                              Inr (finish_result errs',
                                   this\<lparr>requestValidators :=
                                     (requestValidators this)(opId \<mapsto> validators')\<rparr>)))))"

subsection \<open>validateResponse\<close>

definition resolve_response_operation :: "OpenAPIValidator \<Rightarrow> operation_arg \<Rightarrow> operation option" where
  "resolve_response_operation this arg =
     (case arg of
        OperationId s \<Rightarrow> getOperation (router this) s
      | OperationObject operation \<Rightarrow> Some operation)"

definition validateResponse ::
    "OpenAPIValidator \<Rightarrow> json \<Rightarrow> operation_arg \<Rightarrow> js_error + (ValidationResult \<times> OpenAPIValidator)" where
  "validateResponse this res arg =
     (case resolve_response_operation this arg of
        None \<Rightarrow> Inl (Error ''Unknown operation'')
      | Some operation \<Rightarrow>
          (case operationId operation of
             None \<Rightarrow> Inl (Error ''Unknown operation'')
           | Some opId \<Rightarrow>
               if opId = [] then Inl (Error ''Unknown operation'')
               else
                 (case getResponseValidatorForOperation this opId of
                    None \<Rightarrow> Inr (finish_result [], this)
                  | Some validate \<Rightarrow>
                      (case call_validate validate res of
                         (d, validate') \<Rightarrow>
                           Inr (finish_result (case errors validate' of None \<Rightarrow> [] | Some es \<Rightarrow> es),
                                this\<lparr>responseValidators :=
                                  (responseValidators this)(opId \<mapsto> validate')\<rparr>)))))"

section \<open>Instances for closed examples\<close>

text \<open>
  A small stand-in for Ajv on the schema objects of a definition: it knows the keyword
  \<^verbatim>\<open>type\<close> and nothing else, rewrites nothing, and compiles every object. A schema
  has rules when it has a \<^verbatim>\<open>type\<close>.
\<close>

fun has_type :: "string \<Rightarrow> json \<Rightarrow> bool" where
  "has_type t JNull = (t = ''null'')"
| "has_type t (JBool _) = (t = ''boolean'')"
| "has_type t (JNum _) = (t = ''number'' \<or> t = ''integer'')"
| "has_type t (JStr _) = (t = ''string'')"
| "has_type t (JArr _) = (t = ''array'')"
| "has_type t (JObj _) = (t = ''object'')"
| "has_type t JFunction = False"

definition sample_run_schema :: "ajv_opts \<Rightarrow> json option \<Rightarrow> json \<Rightarrow> json \<times> error_object list" where
  "sample_run_schema opts j d =
     (case j of
        Some (JObj kvs) \<Rightarrow>
          (case map_of kvs ''type'' of
             Some (JStr t) \<Rightarrow> if has_type t d then (d, []) else (d, [type_error [] [] t])
           | _ \<Rightarrow> (d, []))
      | _ \<Rightarrow> (d, []))"

definition sample_ajv :: ajv_engine where
  "sample_ajv =
     \<lparr>schema_ok = (\<lambda>opts j. case j of Some (JObj _) \<Rightarrow> True | _ \<Rightarrow> False),
      has_rules = (\<lambda>opts j. case j of Some (JObj kvs) \<Rightarrow> map_of kvs ''type'' \<noteq> None | _ \<Rightarrow> False),
      run_schema = sample_run_schema\<rparr>"

text \<open>A stand-in for \<^verbatim>\<open>JSON.parse\<close> that reads three texts and rejects the rest.\<close>

definition sample_JSON_parse :: "string \<Rightarrow> string + json" where
  "sample_JSON_parse s =
     (if s = ''{}'' then Inr (JObj [])
      else if s = ''[]'' then Inr (JArr [])
      else if s = ''null'' then Inr JNull
      else Inl ''Unexpected token in JSON at position 0'')"

text \<open>
  The built-ins of the closed examples: the stand-in for \<^verbatim>\<open>JSON.parse\<close>, and a stand-in
  for the conversion to a string that prints a number in decimal digits, which is what
  JavaScript prints for an integer below \<open>10 ^ 21\<close>. The examples convert no value: their
  bodies are strings.
\<close>

definition sample_js :: js_builtins where
  "sample_js =
     \<lparr>JSON_parse = sample_JSON_parse,
      ToString = (\<lambda>v. case v of JNum n \<Rightarrow> string_of_int n | JNull \<Rightarrow> ''null''
                       | _ \<Rightarrow> ''[object Object]'')\<rparr>"

text \<open>
  Modelled from the spec: \<^verbatim>\<open>src/router.ts\<close> (the class \<^verbatim>\<open>OpenAPIRouter\<close>) is not among
  the sources. A router over a fixed list of operations: it lists them, finds one by
  operationId, matches a request by method and path, and parses a request into no path
  parameters, the query object of the request, its headers, no cookies, and the body
  (parsed where it is a text that parses). It stands for the router in the closed
  examples, whose requests have no path parameters, cookies or upper-case header names;
  the theorems hold for every router.
\<close>

definition sample_router :: "operation list \<Rightarrow> router" where
  "sample_router ops =
     \<lparr>getOperations = ops,
      getOperation = (\<lambda>opId. find (\<lambda>operation. operationId operation = Some opId) ops),
      matchOperation =
        (\<lambda>req. find (\<lambda>operation. op_method operation = req_method req \<and> path operation = req_path req) ops),
      parseRequest =
        (\<lambda>req template.
           \<lparr>params = Some [],
            query = Some (case req_query req of Some (JObj q) \<Rightarrow> q | _ \<Rightarrow> []),
            headers = req_headers req,
            cookies = Some [],
            parsed_requestBody =
              (case body req of
                 Some (JStr s) \<Rightarrow>
                   (case sample_JSON_parse s of Inr v \<Rightarrow> Some v | Inl _ \<Rightarrow> Some (JStr s))
               | b \<Rightarrow> b)\<rparr>)\<rparr>"

text \<open>
  Three operations: one without parameters, body or responses, one with a JSON body,
  one with an array-typed query parameter and two JSON responses, an object for 200 and
  anything for 404.
\<close>

definition ping_operation :: operation where
  "ping_operation =
     \<lparr>operationId = Some ''ping'', path = ''/ping'', op_method = ''get'', parameters = [],
      requestBody = None, responses = None\<rparr>"

definition createPet_operation :: operation where
  "createPet_operation =
     \<lparr>operationId = Some ''createPet'', path = ''/pets'', op_method = ''post'', parameters = [],
      requestBody =
        Some \<lparr>rb_content =
          [(''application/json'', \<lparr>media_schema = Some (JObj [(''type'', JStr ''object'')])\<rparr>)]\<rparr>,
      responses = None\<rparr>"

definition listPets_operation :: operation where
  "listPets_operation =
     \<lparr>operationId = Some ''listPets'', path = ''/pets'', op_method = ''get'',
      parameters =
        [\<lparr>param_name = ''tags'', param_in = Query, param_required = False,
          param_schema = Some (JObj [(''type'', JStr ''array'')])\<rparr>],
      requestBody = None,
      responses =
        Some [(''200'', \<lparr>resp_content = Some
                 [(''application/json'', \<lparr>media_schema = Some (JObj [(''type'', JStr ''object'')])\<rparr>)]\<rparr>),
              (''404'', \<lparr>resp_content = Some
                 [(''application/json'', \<lparr>media_schema = Some (JObj [])\<rparr>)]\<rparr>)]\<rparr>"

definition sample_operations :: "operation list" where
  "sample_operations = [ping_operation, createPet_operation, listPets_operation]"

definition sample_validator :: "js_error + OpenAPIValidator" where
  "sample_validator =
     new_OpenAPIValidator (\<lambda>d. sample_router sample_operations) sample_ajv JNull None"

text \<open>
  Two more operations, in a definition of their own: one whose parameters name the
  query parameter \<^verbatim>\<open>q1\<close> twice, as a string and as an array (the list of an operation
  holds the parameters of its path item too), and one whose JSON body has the empty
  schema.
\<close>

definition search_operation :: operation where
  "search_operation =
     \<lparr>operationId = Some ''search'', path = ''/search'', op_method = ''get'',
      parameters =
        [\<lparr>param_name = ''q1'', param_in = Query, param_required = False,
          param_schema = Some (JObj [(''type'', JStr ''string'')])\<rparr>,
         \<lparr>param_name = ''q1'', param_in = Query, param_required = False,
          param_schema = Some (JObj [(''type'', JStr ''array'')])\<rparr>],
      requestBody = None, responses = None\<rparr>"

definition note_operation :: operation where
  "note_operation =
     \<lparr>operationId = Some ''addNote'', path = ''/notes'', op_method = ''post'', parameters = [],
      requestBody = Some \<lparr>rb_content = [(''application/json'', \<lparr>media_schema = Some (JObj [])\<rparr>)]\<rparr>,
      responses = None\<rparr>"

definition other_operations :: "operation list" where
  "other_operations = [search_operation, note_operation]"

definition other_validator :: "js_error + OpenAPIValidator" where
  "other_validator =
     new_OpenAPIValidator (\<lambda>d. sample_router other_operations) sample_ajv JNull None"

text \<open>
  The result of a call on the validator that a construction returned, without the
  validator after the call.
\<close>

definition validateRequest_result ::
    "js_builtins \<Rightarrow> js_error + OpenAPIValidator \<Rightarrow> request \<Rightarrow> operation_arg option
     \<Rightarrow> js_error + ValidationResult" where
  "validateRequest_result js made req arg =
     (case made of
        Inl err \<Rightarrow> Inl err
      | Inr this \<Rightarrow>
          (case validateRequest js this req arg of
             Inl err \<Rightarrow> Inl err
           | Inr (r, this') \<Rightarrow> Inr r))"

definition validateResponse_result ::
    "js_error + OpenAPIValidator \<Rightarrow> json \<Rightarrow> operation_arg \<Rightarrow> js_error + ValidationResult" where
  "validateResponse_result made res arg =
     (case made of
        Inl err \<Rightarrow> Inl err
      | Inr this \<Rightarrow>
          (case validateResponse this res arg of
             Inl err \<Rightarrow> Inl err
           | Inr (r, this') \<Rightarrow> Inr r))"

section \<open>Notions used in the statements\<close>

text \<open>Line 111 and line 204: \<^verbatim>\<open>!operation || !operation.operationId\<close>.\<close>

definition unknown_operation :: "operation option \<Rightarrow> bool" where
  "unknown_operation resolved =
     (case resolved of
        None \<Rightarrow> True
      | Some operation \<Rightarrow> (case operationId operation of None \<Rightarrow> True | Some opId \<Rightarrow> opId = []))"

text \<open>
  The invariant of a \<^verbatim>\<open>ValidationResult\<close>: invalid exactly when there is a list of
  errors and it is not empty, valid exactly when there is none, and never an empty list.
\<close>

definition result_invariant :: "ValidationResult \<Rightarrow> bool" where
  "result_invariant r =
     ((\<not> valid r \<longleftrightarrow> (case verrors r of None \<Rightarrow> False | Some es \<Rightarrow> es \<noteq> [])) \<and>
      (valid r \<longleftrightarrow> verrors r = None) \<and>
      verrors r \<noteq> Some [])"

text \<open>
  The registry without the \<^verbatim>\<open>errors\<close> slots of the function objects: under every key,
  the functions and the schemas they were compiled from.
\<close>

definition registry_functions :: "OpenAPIValidator \<Rightarrow>
    (string \<Rightarrow> (schema \<times> (json \<Rightarrow> json \<times> error_object list)) list option) \<times>
    (string \<Rightarrow> (schema \<times> (json \<Rightarrow> json \<times> error_object list)) option)" where
  "registry_functions this =
     (\<lambda>k. map_option (map (\<lambda>v. (vschema v, run v))) (requestValidators this k),
      \<lambda>k. map_option (\<lambda>v. (vschema v, run v)) (responseValidators this k))"

text \<open>The keys under which the constructor registers the operations of a listing.\<close>

definition listing_keys :: "operation list \<Rightarrow> string list" where
  "listing_keys ops = map (\<lambda>operation. registry_key (operationId operation)) ops"

text \<open>A value matches a schema object of the definition when Ajv finds no error.\<close>

definition matches :: "ajv_engine \<Rightarrow> ajv_opts \<Rightarrow> json \<Rightarrow> json \<Rightarrow> bool" where
  "matches e opts sch d = (snd (run_schema e opts (Some sch) d) = [])"

text \<open>The names under \<^verbatim>\<open>properties\<close> of the schema a validator was compiled from.\<close>

definition property_names :: "validate_function \<Rightarrow> string list" where
  "property_names validate =
     (case vschema validate of ObjectSchema t ap props req \<Rightarrow> map fst props | _ \<Rightarrow> [])"

definition is_parameter_validator :: "validate_function \<Rightarrow> bool" where
  "is_parameter_validator validate = (property_names validate = [''path'', ''query'', ''header'', ''cookie''])"

definition is_body_validator :: "validate_function \<Rightarrow> bool" where
  "is_body_validator validate = (property_names validate = [''requestBody''])"


text \<open>The schema under \<^verbatim>\<open>application/json\<close> of the request body, as line 255 tests it.\<close>

definition json_body_schema :: "operation \<Rightarrow> json option" where
  "json_body_schema operation =
     (case requestBody operation of
        None \<Rightarrow> None
      | Some rb \<Rightarrow>
          (case map_of (rb_content rb) ''application/json'' of
             None \<Rightarrow> None
           | Some jsonbody \<Rightarrow>
               (case media_schema jsonbody of
                  None \<Rightarrow> None
                | Some sch \<Rightarrow> if truthy sch then Some sch else None)))"

text \<open>
  An error that says that the request body is required and missing: the keyword
  \<^verbatim>\<open>required\<close> at the top of the input, showing the property \<^verbatim>\<open>requestBody\<close> by its
  name or by its path segment.
\<close>

definition requestBody_missing :: "error_object \<Rightarrow> bool" where
  "requestBody_missing err =
     (keyword err = ''required'' \<and> dataPath err = [] \<and>
      (eparams err = JObj [(''missingProperty'', JStr ''requestBody'')] \<or>
       eparams err = JObj [(''missingProperty'', JStr ''.requestBody'')]))"



subsection \<open>Requests of the closed examples\<close>

definition tags_request :: "json \<Rightarrow> request" where
  "tags_request tags =
     \<lparr>req_method = ''get'', req_path = ''/pets'', req_headers = [],
      req_query = Some (JObj [(''tags'', tags)]), body = None\<rparr>"

definition ping_request :: "obj \<Rightarrow> request" where
  "ping_request q =
     \<lparr>req_method = ''get'', req_path = ''/ping'', req_headers = [],
      req_query = Some (JObj q), body = None\<rparr>"

definition createPet_request :: "json option \<Rightarrow> request" where
  "createPet_request b =
     \<lparr>req_method = ''post'', req_path = ''/pets'', req_headers = [],
      req_query = None, body = b\<rparr>"


definition note_request :: request where
  "note_request =
     \<lparr>req_method = ''post'', req_path = ''/notes'', req_headers = [],
      req_query = None, body = None\<rparr>"


section \<open>Properties\<close>

lemmas construct_defs = new_OpenAPIValidator_def
  buildRequestValidatorsForOperation_def buildResponseValidatorForOperation_def
  request_validators_def response_validator_def body_validators_def
  compile_def paramsSchema_def paramsSchema_literal_def add_parameter_def requestBodySchema_def
  registry_key_def default_ajvOpts_def responseSchemas_def response_schema_def uniq_def

lemmas request_defs = validateRequest_def resolve_request_operation_def request_parameters_def
  query_to_arrays_def array_query_parameter_def input_parameters_def malformed_body_errors_def
  payloadFormats_def attach_requestBody_def getRequestValidatorsForOperation_def call_validate_def
  finish_result_def

lemmas response_defs = validateResponse_def resolve_response_operation_def
  getResponseValidatorForOperation_def call_validate_def finish_result_def

lemmas sample_defs = sample_validator_def sample_router_def sample_operations_def
  ping_operation_def createPet_operation_def listPets_operation_def sample_ajv_def
  sample_run_schema_def sample_JSON_parse_def sample_js_def tags_request_def ping_request_def
  createPet_request_def

lemmas ajv_defs = object_code_def oneOf_code_def relocate_def getProperty_def IDENTIFIER_def
  is_alpha_def is_digit_def escapeFragment_def uri_unreserved_def rules_of_def required_early_def
  js_get_def store_def Object_prototype_def


subsection \<open>Calls of the compiled validators\<close>

lemma call_validate_same:
  "call_validate v d = (d', v') \<Longrightarrow> run v' = run v \<and> vschema v' = vschema v"
  by (auto simp: call_validate_def split: prod.splits)

lemma call_validate_errors:
  "call_validate v d = (d', v') \<Longrightarrow>
     (case errors v' of None \<Rightarrow> [] | Some es \<Rightarrow> es) = snd (run v d) \<and> d' = fst (run v d)"
  by (auto simp: call_validate_def split: prod.splits)

lemma run_validators_same:
  "run_validators vs d errs = (vs', d', errs') \<Longrightarrow>
     map (\<lambda>v. (vschema v, run v)) vs' = map (\<lambda>v. (vschema v, run v)) vs"
proof (induction vs arbitrary: d errs vs' d' errs')
  case Nil
  then show ?case by simp
next
  case (Cons v vs)
  then show ?case
    by (auto split: prod.splits dest: call_validate_same)
qed


subsection \<open>The shape of a ValidationResult\<close>

lemma validateRequest_finish:
  "validateRequest js this req arg = Inr (r, this') \<Longrightarrow> \<exists>errs. r = finish_result errs"
  by (auto simp: validateRequest_def Let_def split: option.splits if_splits prod.splits)

lemma validateResponse_finish:
  "validateResponse this res arg = Inr (r, this') \<Longrightarrow> \<exists>errs. r = finish_result errs"
  by (auto simp: validateResponse_def Let_def split: option.splits if_splits prod.splits)

lemma finish_result_invariant: "result_invariant (finish_result errs)"
  by (simp add: result_invariant_def finish_result_def)

text \<open>
  C3. Every ValidationResult that validateRequest or validateResponse returns satisfies
  the invariant: it is invalid exactly when its list of errors is present and not empty,
  valid exactly when the list is absent, and the list is never present and empty.
\<close>

theorem validation_result_invariant:
  "validateRequest js this req arg = Inr (r, this') \<or>
   validateResponse this res rarg = Inr (r, this') \<Longrightarrow> result_invariant r"
  using validateRequest_finish validateResponse_finish finish_result_invariant by blast

theorem validation_result_invariant_witness:
  "validateRequest sample_js (projr sample_validator) (ping_request [(''foo'', JStr ''bar'')]) None =
     Inr (projr (validateRequest sample_js (projr sample_validator)
                   (ping_request [(''foo'', JStr ''bar'')]) None)) \<and>
   result_invariant
     (fst (projr (validateRequest sample_js (projr sample_validator)
                   (ping_request [(''foo'', JStr ''bar'')]) None)))"
proof -
  let ?call = "validateRequest sample_js (projr sample_validator)
                 (ping_request [(''foo'', JStr ''bar'')]) None"
  have returns: "?call = Inr (projr ?call)"
    by (simp add: construct_defs request_defs sample_defs ajv_defs)
  then have "?call = Inr (fst (projr ?call), snd (projr ?call))" by simp
  then have "result_invariant (fst (projr ?call))"
    using validation_result_invariant by blast
  with returns show ?thesis by blast
qed

text \<open>
  C7. When no operation is resolved, or the resolved operation has no operationId (or an
  empty one), validateRequest and validateResponse throw the error "Unknown operation"
  and return no ValidationResult.
\<close>

theorem unknown_operation_throws:
  "(unknown_operation (resolve_request_operation this req arg) \<longrightarrow>
      validateRequest js this req arg = Inl (Error ''Unknown operation'')) \<and>
   (unknown_operation (resolve_response_operation this rarg) \<longrightarrow>
      validateResponse this res rarg = Inl (Error ''Unknown operation''))"
  by (auto simp: unknown_operation_def validateRequest_def validateResponse_def split: option.splits)

theorem unknown_operation_throws_witness:
  "unknown_operation (resolve_request_operation (projr sample_validator) (createPet_request None)
      (Some (OperationId ''deletePet''))) \<and>
   unknown_operation (resolve_response_operation (projr sample_validator) (OperationId ''deletePet'')) \<and>
   validateRequest sample_js (projr sample_validator) (createPet_request None)
      (Some (OperationId ''deletePet'')) = Inl (Error ''Unknown operation'') \<and>
   validateResponse (projr sample_validator) (JObj []) (OperationId ''deletePet'') =
      Inl (Error ''Unknown operation'')"
proof -
  have a: "unknown_operation (resolve_request_operation (projr sample_validator) (createPet_request None)
      (Some (OperationId ''deletePet'')))"
    by (simp add: unknown_operation_def resolve_request_operation_def construct_defs sample_defs)
  have b: "unknown_operation (resolve_response_operation (projr sample_validator) (OperationId ''deletePet''))"
    by (simp add: unknown_operation_def resolve_response_operation_def construct_defs sample_defs)
  show ?thesis
    using a b
      unknown_operation_throws [of "projr sample_validator" "createPet_request None"
        "Some (OperationId ''deletePet'')" sample_js "OperationId ''deletePet''" "JObj []"]
    by blast
qed

subsection \<open>The frame of a call\<close>

lemma validateRequest_shape:
  assumes "validateRequest js this req arg = Inr (r, this')"
  shows "\<exists>opId vs vs' d d' errs errs'. requestValidators this opId = Some vs \<and>
     run_validators vs d errs = (vs', d', errs') \<and>
     this' = this\<lparr>requestValidators := (requestValidators this)(opId \<mapsto> vs')\<rparr>"
  using assms
  by (simp add: validateRequest_def Let_def getRequestValidatorsForOperation_def
      split: option.splits if_splits prod.splits) blast

lemma validateRequest_frame:
  assumes "validateRequest js this req arg = Inr (r, this')"
  shows "definition_doc this' = definition_doc this \<and> registry_functions this' = registry_functions this
    \<and> dom (requestValidators this') = dom (requestValidators this)
    \<and> dom (responseValidators this') = dom (responseValidators this)"
proof -
  from validateRequest_shape[OF assms] obtain opId vs vs' d d' errs errs' where
    g: "requestValidators this opId = Some vs" and
    rv: "run_validators vs d errs = (vs', d', errs')" and
    t: "this' = this\<lparr>requestValidators := (requestValidators this)(opId \<mapsto> vs')\<rparr>"
    by blast
  have same: "map (\<lambda>v. (vschema v, run v)) vs' = map (\<lambda>v. (vschema v, run v)) vs"
    using run_validators_same[OF rv] .
  have "registry_functions this' = registry_functions this"
    using g same by (auto simp: registry_functions_def t fun_eq_iff)
  moreover have "dom (requestValidators this') = dom (requestValidators this)"
    using g by (auto simp: t)
  ultimately show ?thesis by (simp add: t)
qed

lemma validateResponse_shape:
  assumes "validateResponse this res arg = Inr (r, this')"
  shows "this' = this \<or> (\<exists>opId v v' d d'. responseValidators this opId = Some v \<and>
     call_validate v d = (d', v') \<and>
     this' = this\<lparr>responseValidators := (responseValidators this)(opId \<mapsto> v')\<rparr>)"
  using assms
  by (fastforce simp: validateResponse_def Let_def getResponseValidatorForOperation_def
      split: option.splits if_splits prod.splits)

lemma validateResponse_frame:
  assumes "validateResponse this res arg = Inr (r, this')"
  shows "definition_doc this' = definition_doc this \<and> registry_functions this' = registry_functions this
    \<and> dom (requestValidators this') = dom (requestValidators this)
    \<and> dom (responseValidators this') = dom (responseValidators this)"
proof -
  from validateResponse_shape[OF assms] consider "this' = this" |
    opId v v' d d' where "responseValidators this opId = Some v" "call_validate v d = (d', v')"
      "this' = this\<lparr>responseValidators := (responseValidators this)(opId \<mapsto> v')\<rparr>"
    by blast
  then show ?thesis
  proof cases
    case 1
    then show ?thesis by simp
  next
    case 2
    have "registry_functions this' = registry_functions this"
      using 2(1) call_validate_same[OF 2(2)] by (auto simp: registry_functions_def 2(3) fun_eq_iff)
    moreover have "dom (responseValidators this') = dom (responseValidators this)"
      using 2(1) by (auto simp: 2(3))
    ultimately show ?thesis by (simp add: 2(3))
  qed
qed

text \<open>
  C10. A call of validateRequest or validateResponse that returns leaves the definition
  document as it was, and the two registries with the same keys and, under every key, the
  same validator functions compiled from the same schemas. (A call that throws has run no
  validator.) Only the \<^verbatim>\<open>errors\<close> slot of the functions that ran is written.
\<close>

theorem validation_keeps_registry:
  "validateRequest js this req arg = Inr (r, this') \<or>
   validateResponse this res rarg = Inr (r, this') \<Longrightarrow>
   definition_doc this' = definition_doc this \<and>
   registry_functions this' = registry_functions this \<and>
   dom (requestValidators this') = dom (requestValidators this) \<and>
   dom (responseValidators this') = dom (responseValidators this)"
  using validateRequest_frame validateResponse_frame by blast

theorem validation_keeps_registry_witness:
  "validateResponse (projr sample_validator) (JStr ''x'') (OperationId ''listPets'') =
     Inr (projr (validateResponse (projr sample_validator) (JStr ''x'') (OperationId ''listPets''))) \<and>
   definition_doc (snd (projr (validateResponse (projr sample_validator) (JStr ''x'') (OperationId ''listPets'')))) =
     definition_doc (projr sample_validator) \<and>
   registry_functions (snd (projr (validateResponse (projr sample_validator) (JStr ''x'') (OperationId ''listPets'')))) =
     registry_functions (projr sample_validator)"
proof -
  let ?call = "validateResponse (projr sample_validator) (JStr ''x'') (OperationId ''listPets'')"
  have returns: "?call = Inr (projr ?call)"
    by (simp add: construct_defs response_defs sample_defs ajv_defs string_of_nat.simps)
  then have "?call = Inr (fst (projr ?call), snd (projr ?call))" by simp
  then have "definition_doc (snd (projr ?call)) = definition_doc (projr sample_validator) \<and>
     registry_functions (snd (projr ?call)) = registry_functions (projr sample_validator)"
    using validation_keeps_registry by blast
  with returns show ?thesis by blast
qed



subsection \<open>The registry after construction\<close>

lemma buildRequest_fields:
  "buildRequestValidatorsForOperation e this operation = Inr this' \<Longrightarrow>
     ajvOpts this' = ajvOpts this \<and> router this' = router this \<and>
     definition_doc this' = definition_doc this \<and>
     responseValidators this' = responseValidators this"
  by (auto simp: buildRequestValidatorsForOperation_def split: sum.splits)

lemma buildResponse_fields:
  "buildResponseValidatorForOperation e this operation = Inr this' \<Longrightarrow>
     ajvOpts this' = ajvOpts this \<and> router this' = router this \<and>
     definition_doc this' = definition_doc this \<and>
     requestValidators this' = requestValidators this"
  by (auto simp: buildResponseValidatorForOperation_def split: sum.splits option.splits)

text \<open>
  After the loop over the listing, the entry under the key of a listed operation is the
  list built for the last listed operation with that key; the other keys are untouched.
\<close>

lemma for_each_request:
  "for_each (buildRequestValidatorsForOperation e) ops this = Inr this' \<Longrightarrow>
     ajvOpts this' = ajvOpts this \<and> router this' = router this \<and>
     definition_doc this' = definition_doc this \<and>
     responseValidators this' = responseValidators this \<and>
     (\<forall>k. k \<notin> set (listing_keys ops) \<longrightarrow> requestValidators this' k = requestValidators this k) \<and>
     (\<forall>operation \<in> set ops. \<exists>other \<in> set ops.
        registry_key (operationId other) = registry_key (operationId operation) \<and>
        (\<exists>vs. request_validators e (ajvOpts this) other = Inr vs \<and>
              requestValidators this' (registry_key (operationId operation)) = Some vs))"
proof (induction ops arbitrary: this)
  case Nil
  then show ?case by (simp add: listing_keys_def)
next
  case (Cons x xs)
  from Cons.prems obtain mid where
    b: "buildRequestValidatorsForOperation e this x = Inr mid" and
    r: "for_each (buildRequestValidatorsForOperation e) xs mid = Inr this'"
    by (auto split: sum.splits)
  from b obtain vx where
    vx: "request_validators e (ajvOpts this) x = Inr vx" and
    mid: "mid = this\<lparr>requestValidators := (requestValidators this)(registry_key (operationId x) \<mapsto> vx)\<rparr>"
    by (auto simp: buildRequestValidatorsForOperation_def split: sum.splits)
  note f = buildRequest_fields[OF b]
  note ih = Cons.IH[OF r]
  have opts: "ajvOpts mid = ajvOpts this" using f by simp
  have untouched: "\<forall>k. k \<notin> set (listing_keys (x # xs)) \<longrightarrow> requestValidators this' k = requestValidators this k"
    using ih mid by (auto simp: listing_keys_def)
  have entries: "\<forall>operation \<in> set (x # xs). \<exists>other \<in> set (x # xs).
        registry_key (operationId other) = registry_key (operationId operation) \<and>
        (\<exists>vs. request_validators e (ajvOpts this) other = Inr vs \<and>
              requestValidators this' (registry_key (operationId operation)) = Some vs)"
  proof
    fix operation assume mem: "operation \<in> set (x # xs)"
    show "\<exists>other \<in> set (x # xs).
        registry_key (operationId other) = registry_key (operationId operation) \<and>
        (\<exists>vs. request_validators e (ajvOpts this) other = Inr vs \<and>
              requestValidators this' (registry_key (operationId operation)) = Some vs)"
    proof (cases "registry_key (operationId operation) \<in> set (listing_keys xs)")
      case True
      then obtain later where l: "later \<in> set xs"
        "registry_key (operationId later) = registry_key (operationId operation)"
        by (auto simp: listing_keys_def)
      from ih l(1) obtain other vs where "other \<in> set xs"
        "registry_key (operationId other) = registry_key (operationId later)"
        "request_validators e (ajvOpts mid) other = Inr vs"
        "requestValidators this' (registry_key (operationId later)) = Some vs"
        by blast
      then show ?thesis using l(2) opts by auto
    next
      case False
      then have "operation \<notin> set xs" by (auto simp: listing_keys_def)
      with mem have ox: "operation = x" by simp
      from ih False have "requestValidators this' (registry_key (operationId operation)) =
          requestValidators mid (registry_key (operationId operation))"
        by blast
      then have "requestValidators this' (registry_key (operationId operation)) = Some vx"
        using mid ox by simp
      then show ?thesis using vx ox by auto
    qed
  qed
  show ?case using ih f untouched entries by simp
qed

lemma for_each_response:
  "for_each (buildResponseValidatorForOperation e) ops this = Inr this' \<Longrightarrow>
     ajvOpts this' = ajvOpts this \<and> router this' = router this \<and>
     definition_doc this' = definition_doc this \<and>
     requestValidators this' = requestValidators this \<and>
     (\<forall>k. responseValidators this' k = responseValidators this k \<or>
          (\<exists>other \<in> set ops. registry_key (operationId other) = k \<and>
             (\<exists>v. response_validator e (ajvOpts this) other = Inr (Some v) \<and>
                  responseValidators this' k = Some v))) \<and>
     (\<forall>k. (\<forall>other \<in> set ops. registry_key (operationId other) = k \<longrightarrow>
              response_validator e (ajvOpts this) other = Inr None) \<longrightarrow>
          responseValidators this' k = responseValidators this k)"
proof (induction ops arbitrary: this)
  case Nil
  then show ?case by simp
next
  case (Cons x xs)
  from Cons.prems obtain mid where
    b: "buildResponseValidatorForOperation e this x = Inr mid" and
    r: "for_each (buildResponseValidatorForOperation e) xs mid = Inr this'"
    by (auto split: sum.splits)
  note f = buildResponse_fields[OF b]
  note ih = Cons.IH[OF r]
  have opts: "ajvOpts mid = ajvOpts this" using f by simp
  from b consider
    (none) "response_validator e (ajvOpts this) x = Inr None" "mid = this" |
    (some) v where "response_validator e (ajvOpts this) x = Inr (Some v)"
      "mid = this\<lparr>responseValidators := (responseValidators this)(registry_key (operationId x) \<mapsto> v)\<rparr>"
    by (auto simp: buildResponseValidatorForOperation_def split: sum.splits option.splits)
  then have step: "\<forall>k. responseValidators mid k = responseValidators this k \<or>
      (registry_key (operationId x) = k \<and>
        (\<exists>v. response_validator e (ajvOpts this) x = Inr (Some v) \<and> responseValidators mid k = Some v))"
    by cases auto
  have part1: "\<forall>k. responseValidators this' k = responseValidators this k \<or>
          (\<exists>other \<in> set (x # xs). registry_key (operationId other) = k \<and>
             (\<exists>v. response_validator e (ajvOpts this) other = Inr (Some v) \<and>
                  responseValidators this' k = Some v))"
  proof
    fix k
    from ih have "responseValidators this' k = responseValidators mid k \<or>
          (\<exists>other \<in> set xs. registry_key (operationId other) = k \<and>
             (\<exists>v. response_validator e (ajvOpts mid) other = Inr (Some v) \<and>
                  responseValidators this' k = Some v))"
      by blast
    then show "responseValidators this' k = responseValidators this k \<or>
          (\<exists>other \<in> set (x # xs). registry_key (operationId other) = k \<and>
             (\<exists>v. response_validator e (ajvOpts this) other = Inr (Some v) \<and>
                  responseValidators this' k = Some v))"
    proof
      assume same: "responseValidators this' k = responseValidators mid k"
      from step have "responseValidators mid k = responseValidators this k \<or>
        (registry_key (operationId x) = k \<and>
          (\<exists>v. response_validator e (ajvOpts this) x = Inr (Some v) \<and> responseValidators mid k = Some v))"
        by blast
      then show ?thesis using same by auto
    next
      assume "\<exists>other \<in> set xs. registry_key (operationId other) = k \<and>
             (\<exists>v. response_validator e (ajvOpts mid) other = Inr (Some v) \<and>
                  responseValidators this' k = Some v)"
      then show ?thesis using opts by auto
    qed
  qed
  have part2: "\<forall>k. (\<forall>other \<in> set (x # xs). registry_key (operationId other) = k \<longrightarrow>
              response_validator e (ajvOpts this) other = Inr None) \<longrightarrow>
          responseValidators this' k = responseValidators this k"
  proof (intro allI impI)
    fix k
    assume none: "\<forall>other \<in> set (x # xs). registry_key (operationId other) = k \<longrightarrow>
              response_validator e (ajvOpts this) other = Inr None"
    then have "responseValidators this' k = responseValidators mid k"
      using ih opts by simp
    moreover have "responseValidators mid k = responseValidators this k"
      using step none by auto
    ultimately show "responseValidators this' k = responseValidators this k" by simp
  qed
  show ?case using ih f part1 part2 by simp
qed

lemma for_each_response_ok:
  "for_each (buildResponseValidatorForOperation e) ops this = Inr this' \<Longrightarrow>
     \<forall>operation \<in> set ops. \<exists>rv. response_validator e (ajvOpts this) operation = Inr rv"
proof (induction ops arbitrary: this)
  case Nil
  then show ?case by simp
next
  case (Cons x xs)
  from Cons.prems obtain mid where
    b: "buildResponseValidatorForOperation e this x = Inr mid" and
    r: "for_each (buildResponseValidatorForOperation e) xs mid = Inr this'"
    by (auto split: sum.splits)
  have "ajvOpts mid = ajvOpts this" using buildResponse_fields[OF b] by simp
  moreover have "\<exists>rv. response_validator e (ajvOpts this) x = Inr rv"
    using b by (auto simp: buildResponseValidatorForOperation_def split: sum.splits)
  ultimately show ?case using Cons.IH[OF r] by auto
qed

lemma for_each_response_registered:
  "for_each (buildResponseValidatorForOperation e) ops this = Inr this' \<Longrightarrow>
     \<forall>operation \<in> set ops. \<forall>v. response_validator e (ajvOpts this) operation = Inr (Some v) \<longrightarrow>
       (\<exists>other \<in> set ops. registry_key (operationId other) = registry_key (operationId operation) \<and>
          (\<exists>v'. response_validator e (ajvOpts this) other = Inr (Some v') \<and>
                responseValidators this' (registry_key (operationId operation)) = Some v'))"
proof (induction ops arbitrary: this)
  case Nil
  then show ?case by simp
next
  case (Cons x xs)
  from Cons.prems obtain mid where
    b: "buildResponseValidatorForOperation e this x = Inr mid" and
    r: "for_each (buildResponseValidatorForOperation e) xs mid = Inr this'"
    by (auto split: sum.splits)
  have opts: "ajvOpts mid = ajvOpts this" using buildResponse_fields[OF b] by simp
  note ih = Cons.IH[OF r]
  note ok = for_each_response_ok[OF r]
  note rest = for_each_response[OF r]
  show ?case
  proof (intro ballI allI impI)
    fix operation v
    assume mem: "operation \<in> set (x # xs)"
      and reg: "response_validator e (ajvOpts this) operation = Inr (Some v)"
    let ?k = "registry_key (operationId operation)"
    show "\<exists>other \<in> set (x # xs). registry_key (operationId other) = ?k \<and>
          (\<exists>v'. response_validator e (ajvOpts this) other = Inr (Some v') \<and>
                responseValidators this' ?k = Some v')"
    proof (cases "\<exists>later \<in> set xs. registry_key (operationId later) = ?k \<and>
        (\<exists>w. response_validator e (ajvOpts this) later = Inr (Some w))")
      case True
      then obtain later w where l: "later \<in> set xs" "registry_key (operationId later) = ?k"
        "response_validator e (ajvOpts this) later = Inr (Some w)"
        by blast
      from ih l opts obtain other v' where "other \<in> set xs"
        "registry_key (operationId other) = registry_key (operationId later)"
        "response_validator e (ajvOpts mid) other = Inr (Some v')"
        "responseValidators this' (registry_key (operationId later)) = Some v'"
        by fastforce
      then show ?thesis using l(2) opts by auto
    next
      case False
      then have nones: "\<forall>other \<in> set xs. registry_key (operationId other) = ?k \<longrightarrow>
          response_validator e (ajvOpts mid) other = Inr None"
        using ok opts by (metis option.exhaust)
      then have same: "responseValidators this' ?k = responseValidators mid ?k"
        using rest by blast
      from False reg mem have ox: "operation = x" by auto
      from b reg ox have "responseValidators mid ?k = Some v"
        by (auto simp: buildResponseValidatorForOperation_def split: sum.splits option.splits)
      then show ?thesis using same reg ox by auto
    qed
  qed
qed

text \<open>The constructor returns a validator or throws what a \<^verbatim>\<open>compile\<close> threw.\<close>

lemma new_OpenAPIValidator_loops:
  assumes "new_OpenAPIValidator R e def_arg opts_arg = Inr this"
  shows "\<exists>mid. for_each (buildRequestValidatorsForOperation e) (getOperations (R def_arg))
            \<lparr>definition_doc = def_arg,
             ajvOpts = (case opts_arg of None \<Rightarrow> default_ajvOpts | Some opts \<Rightarrow> opts),
             requestValidators = Map.empty, responseValidators = Map.empty,
             router = R def_arg\<rparr> = Inr mid \<and>
          for_each (buildResponseValidatorForOperation e) (getOperations (R def_arg)) mid = Inr this"
  using assms by (auto simp: new_OpenAPIValidator_def Let_def split: sum.splits)

lemma new_OpenAPIValidator_fields:
  assumes "new_OpenAPIValidator R e def_arg opts_arg = Inr this"
  shows "router this = R def_arg \<and> definition_doc this = def_arg \<and>
     ajvOpts this = (case opts_arg of None \<Rightarrow> default_ajvOpts | Some opts \<Rightarrow> opts)"
proof -
  from new_OpenAPIValidator_loops[OF assms] obtain mid where
    a: "for_each (buildRequestValidatorsForOperation e) (getOperations (R def_arg))
            \<lparr>definition_doc = def_arg,
             ajvOpts = (case opts_arg of None \<Rightarrow> default_ajvOpts | Some opts \<Rightarrow> opts),
             requestValidators = Map.empty, responseValidators = Map.empty,
             router = R def_arg\<rparr> = Inr mid" and
    b: "for_each (buildResponseValidatorForOperation e) (getOperations (R def_arg)) mid = Inr this"
    by blast
  from for_each_request[OF a] for_each_response[OF b] show ?thesis by simp
qed

lemma new_OpenAPIValidator_requests:
  assumes "new_OpenAPIValidator R e def_arg opts_arg = Inr this"
    and "operation \<in> set (getOperations (router this))"
  shows "\<exists>other \<in> set (getOperations (router this)).
        registry_key (operationId other) = registry_key (operationId operation) \<and>
        (\<exists>vs. request_validators e (ajvOpts this) other = Inr vs \<and>
              requestValidators this (registry_key (operationId operation)) = Some vs)"
proof -
  from new_OpenAPIValidator_loops[OF assms(1)] obtain mid where
    a: "for_each (buildRequestValidatorsForOperation e) (getOperations (R def_arg))
            \<lparr>definition_doc = def_arg,
             ajvOpts = (case opts_arg of None \<Rightarrow> default_ajvOpts | Some opts \<Rightarrow> opts),
             requestValidators = Map.empty, responseValidators = Map.empty,
             router = R def_arg\<rparr> = Inr mid" and
    b: "for_each (buildResponseValidatorForOperation e) (getOperations (R def_arg)) mid = Inr this"
    by blast
  note fa = for_each_request[OF a]
  note fb = for_each_response[OF b]
  note fl = new_OpenAPIValidator_fields[OF assms(1)]
  from assms(2) fl have mem: "operation \<in> set (getOperations (R def_arg))" by simp
  from fa mem obtain other vs where
    "other \<in> set (getOperations (R def_arg))"
    "registry_key (operationId other) = registry_key (operationId operation)"
    "request_validators e (case opts_arg of None \<Rightarrow> default_ajvOpts | Some opts \<Rightarrow> opts) other = Inr vs"
    "requestValidators mid (registry_key (operationId operation)) = Some vs"
    by fastforce
  then show ?thesis using fb fl by auto
qed

text \<open>Where the keys of the listing are distinct, every entry is the operation's own.\<close>

lemma same_key_same_operation:
  "distinct (listing_keys ops) \<Longrightarrow> a \<in> set ops \<Longrightarrow> b \<in> set ops \<Longrightarrow>
     registry_key (operationId a) = registry_key (operationId b) \<Longrightarrow> a = b"
  unfolding listing_keys_def by (metis distinct_map inj_onD)

lemma constructed_request_validators:
  assumes "new_OpenAPIValidator R e def_arg opts_arg = Inr this"
    and "operation \<in> set (getOperations (router this))"
    and "distinct (listing_keys (getOperations (router this)))"
  shows "\<exists>vs. request_validators e (ajvOpts this) operation = Inr vs \<and>
     requestValidators this (registry_key (operationId operation)) = Some vs"
  using new_OpenAPIValidator_requests[OF assms(1,2)] same_key_same_operation[OF assms(3) _ assms(2)]
  by metis

lemma constructed_response_validator:
  assumes "new_OpenAPIValidator R e def_arg opts_arg = Inr this"
    and "operation \<in> set (getOperations (router this))"
    and "distinct (listing_keys (getOperations (router this)))"
  shows "response_validator e (ajvOpts this) operation =
     Inr (responseValidators this (registry_key (operationId operation)))"
proof -
  from new_OpenAPIValidator_loops[OF assms(1)] obtain mid where
    a: "for_each (buildRequestValidatorsForOperation e) (getOperations (R def_arg))
            \<lparr>definition_doc = def_arg,
             ajvOpts = (case opts_arg of None \<Rightarrow> default_ajvOpts | Some opts \<Rightarrow> opts),
             requestValidators = Map.empty, responseValidators = Map.empty,
             router = R def_arg\<rparr> = Inr mid" and
    b: "for_each (buildResponseValidatorForOperation e) (getOperations (R def_arg)) mid = Inr this"
    by blast
  note fa = for_each_request[OF a]
  note fb = for_each_response[OF b]
  note fl = new_OpenAPIValidator_fields[OF assms(1)]
  let ?ops = "getOperations (R def_arg)"
  let ?k = "registry_key (operationId operation)"
  have mem: "operation \<in> set ?ops" and dist: "distinct (listing_keys ?ops)"
    using assms(2,3) fl by simp_all
  have opts: "ajvOpts mid = ajvOpts this" using fb by simp
  have empty: "responseValidators mid ?k = None" using fa by simp
  have only: "\<And>other. other \<in> set ?ops \<Longrightarrow> registry_key (operationId other) = ?k \<Longrightarrow> other = operation"
    using same_key_same_operation[OF dist _ mem] by blast
  from fb have alt: "responseValidators this ?k = responseValidators mid ?k \<or>
          (\<exists>other \<in> set ?ops. registry_key (operationId other) = ?k \<and>
             (\<exists>v. response_validator e (ajvOpts mid) other = Inr (Some v) \<and>
                  responseValidators this ?k = Some v))"
    by blast
  from fb have none: "(\<forall>other \<in> set ?ops. registry_key (operationId other) = ?k \<longrightarrow>
              response_validator e (ajvOpts mid) other = Inr None) \<longrightarrow>
          responseValidators this ?k = responseValidators mid ?k"
    by blast
  note ok = for_each_response_ok[OF b]
  note reg = for_each_response_registered[OF b]
  from ok mem opts obtain rv where rv: "response_validator e (ajvOpts this) operation = Inr rv"
    by fastforce
  show ?thesis
  proof (cases rv)
    case None
    then have "\<forall>other \<in> set ?ops. registry_key (operationId other) = ?k \<longrightarrow>
              response_validator e (ajvOpts mid) other = Inr None"
      using rv only opts by metis
    then have "responseValidators this ?k = None" using none empty by simp
    then show ?thesis using rv None by simp
  next
    case (Some v)
    from reg mem rv Some opts obtain other v' where o: "other \<in> set ?ops"
      "registry_key (operationId other) = ?k"
      "response_validator e (ajvOpts mid) other = Inr (Some v')"
      "responseValidators this ?k = Some v'"
      by fastforce
    from only[OF o(1,2)] o(3) rv Some opts have "v' = v" by simp
    then show ?thesis using o(4) rv Some by simp
  qed
qed


subsection \<open>What the builders produce\<close>

lemma compile_vschema: "compile e opts s = Inr v \<Longrightarrow> vschema v = s \<and> run v = ajv_code e opts s [] ''#'' \<and> errors v = None"
  by (auto simp: compile_def split: if_splits)

lemma add_parameter_names:
  assumes "s = ObjectSchema t ap props req" "map fst props = names"
  shows "\<exists>t' ap' props' req'. add_parameter s param = ObjectSchema t' ap' props' req' \<and> map fst props' = names"
proof (cases "map_of props (location_name (param_in param))")
  case None
  then show ?thesis using assms by (simp add: add_parameter_def)
next
  case (Some target)
  then have "location_name (param_in param) \<in> set (map fst props)"
    by (metis map_of_eq_None_iff option.distinct(1) set_map)
  then have "map fst (AList.update (location_name (param_in param)) new props) = names" for new
    using assms(2) by (simp add: update_keys)
  then show ?thesis using assms(1) Some by (simp add: add_parameter_def Let_def)
qed

lemma foldl_add_parameter_names:
  "s = ObjectSchema t ap props req \<Longrightarrow> map fst props = names \<Longrightarrow>
     \<exists>t' ap' props' req'. foldl add_parameter s ps = ObjectSchema t' ap' props' req' \<and> map fst props' = names"
proof (induction ps arbitrary: s t ap props req)
  case Nil
  then show ?case by simp
next
  case (Cons p ps)
  from add_parameter_names[OF Cons.prems, of p] obtain t' ap' props' req' where
    "add_parameter s p = ObjectSchema t' ap' props' req'" "map fst props' = names"
    by blast
  from Cons.IH[OF this] show ?case by simp
qed

lemma paramsSchema_names:
  "\<exists>t ap props req. paramsSchema operation = ObjectSchema t ap props req \<and>
     map fst props = [''path'', ''query'', ''header'', ''cookie'']"
  using foldl_add_parameter_names[of paramsSchema_literal "Some ''Request''" True
      "[(''path'', ObjectSchema None False [] []), (''query'', ObjectSchema None False [] []),
        (''header'', ObjectSchema None True [] []), (''cookie'', ObjectSchema None True [] [])]"
      "[]" "[''path'', ''query'', ''header'', ''cookie'']" "parameters operation"]
  by (simp add: paramsSchema_def paramsSchema_literal_def)

lemma body_validators_shape:
  assumes "body_validators e opts operation = Inr bvs"
  shows "bvs = [] \<or> (\<exists>bv. bvs = [bv] \<and> is_body_validator bv \<and> \<not> is_parameter_validator bv)"
  using assms
  by (auto simp: body_validators_def requestBodySchema_def is_body_validator_def
      is_parameter_validator_def property_names_def
      split: option.splits if_splits sum.splits dest!: compile_vschema)

lemma request_validators_shape:
  assumes "request_validators e opts operation = Inr vs"
  shows "\<exists>bvs pv. vs = bvs @ [pv] \<and> body_validators e opts operation = Inr bvs \<and>
     compile e (opts\<lparr>coerceTypes := True\<rparr>) (paramsSchema operation) = Inr pv \<and>
     is_parameter_validator pv \<and> \<not> is_body_validator pv"
proof -
  from assms obtain bvs pv where
    b: "body_validators e opts operation = Inr bvs" and
    c: "compile e (opts\<lparr>coerceTypes := True\<rparr>) (paramsSchema operation) = Inr pv" and
    vs: "vs = bvs @ [pv]"
    by (auto simp: request_validators_def split: sum.splits)
  from compile_vschema[OF c] paramsSchema_names[of operation]
  have "is_parameter_validator pv \<and> \<not> is_body_validator pv"
    by (auto simp: is_parameter_validator_def is_body_validator_def property_names_def)
  with b c vs show ?thesis by blast
qed

lemma response_validator_shape:
  assumes "response_validator e opts operation = Inr (Some v)"
  shows "\<exists>rs. responses operation = Some rs \<and> responseSchemas rs \<noteq> [] \<and>
     compile e opts (OneOfSchema (map (\<lambda>sch. SchemaObject (Some sch)) (responseSchemas rs))) = Inr v"
  using assms by (auto simp: response_validator_def split: option.splits if_splits sum.splits)

text \<open>
  C8. After construction, the registry has, under the operationId of every operation
  of the router's listing, a list of request validators that holds exactly one parameter
  validator and at most one body validator, the body validator first; and at most one
  response validator, which is then compiled from a oneOf of at least one schema.
\<close>

theorem registry_entries:
  assumes "new_OpenAPIValidator R e def_arg opts_arg = Inr this"
    and "operation \<in> set (getOperations (router this))"
  shows "\<exists>vs. requestValidators this (registry_key (operationId operation)) = Some vs \<and>
     length (filter is_parameter_validator vs) = 1 \<and>
     length (filter is_body_validator vs) \<le> 1 \<and>
     vs = filter is_body_validator vs @ filter is_parameter_validator vs \<and>
     (case responseValidators this (registry_key (operationId operation)) of
        None \<Rightarrow> True
      | Some v \<Rightarrow> (case vschema v of OneOfSchema ss \<Rightarrow> ss \<noteq> [] | _ \<Rightarrow> False))"
proof -
  let ?k = "registry_key (operationId operation)"
  from new_OpenAPIValidator_requests[OF assms] obtain other vs where
    vs: "request_validators e (ajvOpts this) other = Inr vs" "requestValidators this ?k = Some vs"
    by blast
  from request_validators_shape[OF vs(1)] obtain bvs pv where
    sh: "vs = bvs @ [pv]" "body_validators e (ajvOpts this) other = Inr bvs"
      "is_parameter_validator pv" "\<not> is_body_validator pv"
    by blast
  from body_validators_shape[OF sh(2)] sh(1,3,4)
  have counts: "length (filter is_parameter_validator vs) = 1 \<and>
     length (filter is_body_validator vs) \<le> 1 \<and>
     vs = filter is_body_validator vs @ filter is_parameter_validator vs"
    by auto
  from new_OpenAPIValidator_loops[OF assms(1)] obtain mid where
    a: "for_each (buildRequestValidatorsForOperation e) (getOperations (R def_arg))
            \<lparr>definition_doc = def_arg,
             ajvOpts = (case opts_arg of None \<Rightarrow> default_ajvOpts | Some opts \<Rightarrow> opts),
             requestValidators = Map.empty, responseValidators = Map.empty,
             router = R def_arg\<rparr> = Inr mid" and
    b: "for_each (buildResponseValidatorForOperation e) (getOperations (R def_arg)) mid = Inr this"
    by blast
  have empty: "responseValidators mid ?k = None" using for_each_request[OF a] by simp
  from for_each_response[OF b] have "responseValidators this ?k = responseValidators mid ?k \<or>
      (\<exists>other v. response_validator e (ajvOpts mid) other = Inr (Some v) \<and>
                  responseValidators this ?k = Some v)"
    by blast
  then have resp: "(case responseValidators this ?k of
        None \<Rightarrow> True
      | Some v \<Rightarrow> (case vschema v of OneOfSchema ss \<Rightarrow> ss \<noteq> [] | _ \<Rightarrow> False))"
  proof
    assume "responseValidators this ?k = responseValidators mid ?k"
    then show ?thesis using empty by simp
  next
    assume "\<exists>other v. response_validator e (ajvOpts mid) other = Inr (Some v) \<and>
                  responseValidators this ?k = Some v"
    then obtain other v where v: "response_validator e (ajvOpts mid) other = Inr (Some v)"
      "responseValidators this ?k = Some v"
      by blast
    from response_validator_shape[OF v(1)] obtain rs where
      "responseSchemas rs \<noteq> []"
      "compile e (ajvOpts mid) (OneOfSchema (map (\<lambda>sch. SchemaObject (Some sch)) (responseSchemas rs))) = Inr v"
      by blast
    then show ?thesis using v(2) compile_vschema by fastforce
  qed
  from vs(2) counts resp show ?thesis by blast
qed

lemma sample_validator_made:
  "new_OpenAPIValidator (\<lambda>d. sample_router sample_operations) sample_ajv JNull None =
     Inr (projr sample_validator)"
  by (simp add: construct_defs sample_defs)

lemma sample_listing: "getOperations (router (projr sample_validator)) = sample_operations"
  by (simp add: construct_defs sample_defs)

lemma sample_listing_distinct: "distinct (listing_keys (getOperations (router (projr sample_validator))))"
  by (simp add: sample_listing) (simp add: listing_keys_def registry_key_def sample_defs)

theorem registry_entries_witness:
  "new_OpenAPIValidator (\<lambda>d. sample_router sample_operations) sample_ajv JNull None =
     Inr (projr sample_validator) \<and>
   createPet_operation \<in> set (getOperations (router (projr sample_validator))) \<and>
   (\<exists>vs. requestValidators (projr sample_validator) ''createPet'' = Some vs \<and>
     length (filter is_parameter_validator vs) = 1 \<and>
     length (filter is_body_validator vs) \<le> 1 \<and>
     vs = filter is_body_validator vs @ filter is_parameter_validator vs)"
proof -
  have mem: "createPet_operation \<in> set (getOperations (router (projr sample_validator)))"
    by (simp add: sample_listing) (simp add: sample_operations_def)
  have key: "registry_key (operationId createPet_operation) = ''createPet''"
    by (simp add: registry_key_def createPet_operation_def)
  from registry_entries[OF sample_validator_made mem] key sample_validator_made mem
  show ?thesis by auto
qed





subsection \<open>Single query values for array parameters\<close>









subsection \<open>Properties of an object and of its prototype\<close>

lemma js_get_own:
  "k \<notin> set Object_prototype \<Longrightarrow> js_get kvs k = map_of kvs k"
  by (simp add: js_get_def Object_prototype_def split: option.splits)

lemma js_get_names:
  "js_get kvs ''path'' = map_of kvs ''path''"
  "js_get kvs ''query'' = map_of kvs ''query''"
  "js_get kvs ''header'' = map_of kvs ''header''"
  "js_get kvs ''cookie'' = map_of kvs ''cookie''"
  "js_get kvs ''requestBody'' = map_of kvs ''requestBody''"
  by (simp_all add: js_get_own Object_prototype_def)

lemma js_get_update_other:
  "k' \<noteq> k \<Longrightarrow> js_get (AList.update k v kvs) k' = js_get kvs k'"
  by (simp add: js_get_def update_conv')

lemma js_get_store_other:
  "k' \<noteq> k \<Longrightarrow> js_get (store k v v' kvs) k' = js_get kvs k'"
  by (simp add: store_def js_get_update_other)

subsection \<open>Validity under the keywords of an object schema\<close>

lemma properties_code_valid:
  "distinct (map fst ps) \<Longrightarrow>
     (snd (properties_code opts req ps dp sp kvs) = []) =
     (\<forall>(k, f) \<in> set ps.
        case js_get kvs k of
          None \<Rightarrow> k \<notin> set req
        | Some v \<Rightarrow> snd (f (dp @ getProperty k) (sp @ ''/properties/'' @ escapeFragment k) v) = [])"
proof (induction ps arbitrary: kvs)
  case Nil
  then show ?case by simp
next
  case (Cons p ps)
  obtain k f where p: "p = (k, f)" by (cases p)
  from Cons.prems p have dist: "distinct (map fst ps)" and fresh: "k \<notin> fst ` set ps" by auto
  note ih = Cons.IH[OF dist]
  show ?case
  proof (cases "js_get kvs k")
    case None
    then show ?thesis using ih[of kvs] p by (auto split: prod.splits)
  next
    case (Some v)
    obtain v' es where run: "f (dp @ getProperty k) (sp @ ''/properties/'' @ escapeFragment k) v = (v', es)"
      by (cases "f (dp @ getProperty k) (sp @ ''/properties/'' @ escapeFragment k) v")
    have others: "js_get (store k v v' kvs) k' = js_get kvs k'" if "(k', f') \<in> set ps" for k' f'
    proof -
      from that fresh have "k' \<noteq> k" by force
      then show ?thesis by (rule js_get_store_other)
    qed
    have rest: "(snd (properties_code opts req ps dp sp (store k v v' kvs)) = []) =
        (\<forall>(k, f) \<in> set ps.
           case js_get kvs k of
             None \<Rightarrow> k \<notin> set req
           | Some v \<Rightarrow> snd (f (dp @ getProperty k) (sp @ ''/properties/'' @ escapeFragment k) v) = [])"
    proof -
      have "(case js_get (store k v v' kvs) (fst x) of
               None \<Rightarrow> fst x \<notin> set req
             | Some v \<Rightarrow> snd (snd x (dp @ getProperty (fst x)) (sp @ ''/properties/'' @ escapeFragment (fst x)) v) = []) =
            (case js_get kvs (fst x) of
               None \<Rightarrow> fst x \<notin> set req
             | Some v \<Rightarrow> snd (snd x (dp @ getProperty (fst x)) (sp @ ''/properties/'' @ escapeFragment (fst x)) v) = [])"
        if "x \<in> set ps" for x
        using others[of "fst x" "snd x"] that by simp
      then show ?thesis
        unfolding ih[of "store k v v' kvs"] by (simp add: case_prod_beta)
    qed
    show ?thesis
    proof (cases "es = []")
      case True
      then show ?thesis using p Some run rest by (auto split: prod.splits)
    next
      case False
      then show ?thesis using p Some run by (auto split: prod.splits)
    qed
  qed
qed

lemma required_early_none:
  "(filter (\<lambda>k. js_get kvs k = None) (required_early names ruled req) = []) =
   (\<forall>k \<in> set req. (names = [] \<or> k \<notin> set ruled) \<longrightarrow> js_get kvs k \<noteq> None)"
  by (auto simp: required_early_def filter_empty_conv)

text \<open>
  An object is valid exactly when it has every required property, no additional
  property where none is allowed, and every property that it has is valid under its
  schema.
\<close>

lemma object_code_valid:
  assumes "distinct (map fst rules)"
  shows "(snd (object_code opts ap names rules req dp sp (JObj kvs)) = []) =
     ((\<forall>k \<in> set req. js_get kvs k \<noteq> None) \<and>
      (ap \<or> (\<forall>k \<in> set (map fst kvs). k \<in> set names)) \<and>
      (\<forall>(k, f) \<in> set rules. \<forall>v. js_get kvs k = Some v \<longrightarrow>
        snd (f (dp @ getProperty k) (sp @ ''/properties/'' @ escapeFragment k) v) = []))"
proof -
  let ?early = "filter (\<lambda>k. js_get kvs k = None) (required_early names (map fst rules) req)"
  let ?extra = "filter (\<lambda>k. k \<notin> set names) (map fst kvs)"
  let ?props = "snd (properties_code opts req rules dp sp kvs)"
  have code: "(snd (object_code opts ap names rules req dp sp (JObj kvs)) = []) =
      (?early = [] \<and> (ap \<or> ?extra = []) \<and> ?props = [])"
    unfolding object_code_def Let_def
    by (cases "properties_code opts req rules dp sp kvs"; cases ?early; cases ?extra)
       (auto split: if_splits)
  have add: "(?extra = []) = (\<forall>k \<in> set (map fst kvs). k \<in> set names)"
    by (auto simp: filter_empty_conv)
  have req: "(?early = [] \<and> ?props = []) =
      ((\<forall>k \<in> set req. js_get kvs k \<noteq> None) \<and>
       (\<forall>(k, f) \<in> set rules. \<forall>v. js_get kvs k = Some v \<longrightarrow>
          snd (f (dp @ getProperty k) (sp @ ''/properties/'' @ escapeFragment k) v) = []))"
    unfolding required_early_none properties_code_valid[OF assms]
    by (fastforce split: option.splits)
  show ?thesis unfolding code add[symmetric] using req by blast
qed


subsection \<open>The object that the validators receive\<close>

lemma request_parameters_lookup:
  "map_of (request_parameters operation parsed) ''path'' = map_option JObj (params parsed)"
  "map_of (request_parameters operation parsed) ''query'' =
     map_option (\<lambda>q. JObj (query_to_arrays operation q)) (query parsed)"
  "map_of (request_parameters operation parsed) ''header'' = Some (JObj (headers parsed))"
  "map_of (request_parameters operation parsed) ''cookie'' = map_option JObj (cookies parsed)"
  by (auto simp: request_parameters_def attach_requestBody_def input_parameters_def update_conv'
      split: option.splits)

lemma request_parameters_no_body:
  "parsed_requestBody parsed = None \<Longrightarrow>
     map_of (request_parameters operation parsed) ''requestBody'' = None"
  by (auto simp: request_parameters_def attach_requestBody_def input_parameters_def
      split: option.splits)

lemma foldl_keeps: "(\<And>acc x. f acc x = acc) \<Longrightarrow> foldl f a xs = a"
  by (induction xs) simp_all

lemma query_to_arrays_no_parameters:
  "parameters operation = [] \<Longrightarrow> query_to_arrays operation q = q"
  unfolding query_to_arrays_def
  by (rule foldl_keeps) (simp add: array_query_parameter_def split: prod.splits)

lemma body_validators_none:
  "json_body_schema operation = None \<Longrightarrow> body_validators e opts operation = Inr []"
  by (auto simp: json_body_schema_def body_validators_def split: option.splits if_splits)

lemma paramsSchema_no_parameters:
  "parameters operation = [] \<Longrightarrow> paramsSchema operation = paramsSchema_literal"
  by (simp add: paramsSchema_def)

text \<open>
  The parameter schema of an operation without parameters accepts an object exactly when
  what it has under \<^verbatim>\<open>path\<close> and \<^verbatim>\<open>query\<close> is an object without keys, and what it
  has under \<^verbatim>\<open>header\<close> and \<^verbatim>\<open>cookie\<close> is an object.
\<close>

lemma empty_location_valid:
  "(snd (object_code opts ap [] [] [] dp sp (JObj kvs)) = []) = (ap \<or> kvs = [])"
  using object_code_valid[of "[]" opts ap "[]" "[]" dp sp kvs] by auto

lemma location_valid:
  "m = map_option JObj x \<Longrightarrow>
     (\<forall>v. m = Some v \<longrightarrow> snd (object_code opts ap [] [] [] dp sp v) = []) =
     (ap \<or> x = None \<or> x = Some [])"
  by (cases x) (auto simp: empty_location_valid)

lemma paramsSchema_literal_valid:
  assumes "map_of kvs ''path'' = map_option JObj ps"
    and "map_of kvs ''query'' = map_option JObj q"
    and "map_of kvs ''header'' = Some (JObj hs)"
    and "map_of kvs ''cookie'' = map_option JObj cs"
  shows "(snd (ajv_code e opts paramsSchema_literal dp sp (JObj kvs)) = []) =
     ((ps = None \<or> ps = Some []) \<and> (q = None \<or> q = Some []))"
proof -
  have code: "ajv_code e opts paramsSchema_literal =
      object_code opts True [''path'', ''query'', ''header'', ''cookie'']
        [(''path'', object_code opts False [] [] []), (''query'', object_code opts False [] [] []),
         (''header'', object_code opts True [] [] []), (''cookie'', object_code opts True [] [] [])] []"
    by (simp add: paramsSchema_literal_def rules_of_def)
  have hs: "map_of kvs ''header'' = map_option JObj (Some hs)" using assms(3) by simp
  show ?thesis
    unfolding code
    by (subst object_code_valid)
       (simp_all add: js_get_names location_valid[OF assms(1)] location_valid[OF assms(2)]
          location_valid[OF hs] location_valid[OF assms(4)])
qed

lemma run_single_validator:
  "run_validators [validate] d errs =
     ([validate\<lparr>errors := (if snd (run validate d) = [] then None else Some (snd (run validate d)))\<rparr>],
      fst (run validate d), errs @ snd (run validate d))"
  by (simp add: call_validate_def split: prod.splits)

text \<open>
  C2, as amended. For an operation without parameters and without a schema for a JSON
  request body, registered under an operationId of its own, validateRequest returns a
  result, and the result is valid exactly when the parsed request has no path parameter
  and no query key and the check of a raw body pushed no parse error. Headers, cookies
  and a parsed body do not matter.
\<close>

theorem no_parameters_no_body_schema:
  assumes "new_OpenAPIValidator R e def_arg opts_arg = Inr this"
    and "operation \<in> set (getOperations (router this))"
    and "distinct (listing_keys (getOperations (router this)))"
    and "resolve_request_operation this req arg = Some operation"
    and "operationId operation = Some opId" and "opId \<noteq> []"
    and "parameters operation = []" and "json_body_schema operation = None"
  shows "\<exists>r this'. validateRequest js this req arg = Inr (r, this') \<and>
     (valid r \<longleftrightarrow>
        (params (parseRequest (router this) req (path operation)) = None \<or>
         params (parseRequest (router this) req (path operation)) = Some []) \<and>
        (query (parseRequest (router this) req (path operation)) = None \<or>
         query (parseRequest (router this) req (path operation)) = Some []) \<and>
        malformed_body_errors js operation (body req) = [])"
proof -
  let ?parsed = "parseRequest (router this) req (path operation)"
  let ?d = "request_parameters operation ?parsed"
  let ?errs = "malformed_body_errors js operation (body req)"
  from constructed_request_validators[OF assms(1-3)] obtain vs where
    vs: "request_validators e (ajvOpts this) operation = Inr vs"
      "requestValidators this (registry_key (operationId operation)) = Some vs"
    by blast
  from request_validators_shape[OF vs(1)] body_validators_none[OF assms(8)] obtain pv where
    pv: "vs = [pv]"
      "compile e ((ajvOpts this)\<lparr>coerceTypes := True\<rparr>) (paramsSchema operation) = Inr pv"
    by auto
  have run: "run pv = ajv_code e ((ajvOpts this)\<lparr>coerceTypes := True\<rparr>) paramsSchema_literal [] ''#''"
    using compile_vschema[OF pv(2)] paramsSchema_no_parameters[OF assms(7)] by simp
  have q: "map_of ?d ''query'' = map_option JObj (query ?parsed)"
    using request_parameters_lookup(2)[of operation ?parsed] query_to_arrays_no_parameters[OF assms(7)]
    by (simp add: option.map_comp comp_def)
  have ok: "(snd (run pv (JObj ?d)) = []) =
      ((params ?parsed = None \<or> params ?parsed = Some []) \<and>
       (query ?parsed = None \<or> query ?parsed = Some []))"
    unfolding run
    by (rule paramsSchema_literal_valid[OF request_parameters_lookup(1) q
          request_parameters_lookup(3,4)])
  have reg: "getRequestValidatorsForOperation this opId = Some [pv]"
    using vs(2) pv(1) assms(5) by (simp add: getRequestValidatorsForOperation_def registry_key_def)
  have call: "validateRequest js this req arg =
      Inr (finish_result (?errs @ snd (run pv (JObj ?d))),
           this\<lparr>requestValidators := (requestValidators this)
             (opId \<mapsto> [pv\<lparr>errors := (if snd (run pv (JObj ?d)) = [] then None
                                       else Some (snd (run pv (JObj ?d))))\<rparr>])\<rparr>)"
    using assms(4-6) reg
    by (simp add: validateRequest_def Let_def run_single_validator del: run_validators.simps)
  have "valid (finish_result (?errs @ snd (run pv (JObj ?d)))) =
      (?errs = [] \<and> snd (run pv (JObj ?d)) = [])"
    by (simp add: finish_result_def)
  with call ok show ?thesis by auto
qed

theorem no_parameters_no_body_schema_witness:
  "new_OpenAPIValidator (\<lambda>d. sample_router sample_operations) sample_ajv JNull None =
     Inr (projr sample_validator) \<and>
   resolve_request_operation (projr sample_validator) (ping_request []) None = Some ping_operation \<and>
   parameters ping_operation = [] \<and> json_body_schema ping_operation = None \<and>
   (\<exists>r this'. validateRequest sample_js (projr sample_validator) (ping_request []) None =
       Inr (r, this') \<and> valid r)"
proof -
  have mem: "ping_operation \<in> set (getOperations (router (projr sample_validator)))"
    by (simp add: sample_listing) (simp add: sample_operations_def)
  have res: "resolve_request_operation (projr sample_validator) (ping_request []) None = Some ping_operation"
    by (simp add: resolve_request_operation_def construct_defs sample_defs)
  have id: "operationId ping_operation = Some ''ping''" and ne: "''ping'' \<noteq> []"
    and ps: "parameters ping_operation = []" and nb: "json_body_schema ping_operation = None"
    by (simp_all add: ping_operation_def json_body_schema_def)
  have parsed: "params (parseRequest (router (projr sample_validator)) (ping_request []) (path ping_operation)) = Some []"
    "query (parseRequest (router (projr sample_validator)) (ping_request []) (path ping_operation)) = Some []"
    by (simp_all add: construct_defs sample_defs)
  have raw: "malformed_body_errors sample_js ping_operation (body (ping_request [])) = []"
    by (simp add: malformed_body_errors_def ping_request_def)
  from no_parameters_no_body_schema[OF sample_validator_made mem sample_listing_distinct res id ne ps nb,
      of sample_js] parsed raw sample_validator_made res ps nb
  show ?thesis by auto
qed

text \<open>
  C2 as stated fails: the operation \<^verbatim>\<open>ping\<close> has no parameters and no body, the request
  is matched to it, and the query key \<^verbatim>\<open>foo\<close> makes the result invalid, because the
  parameter schema has \<^verbatim>\<open>additionalProperties: false\<close> under \<^verbatim>\<open>query\<close>.
\<close>

theorem arbitrary_query_key_counterexample:
  "parameters ping_operation = [] \<and> json_body_schema ping_operation = None \<and>
   validateRequest_result sample_js sample_validator
     (ping_request [(''foo'', JStr ''bar'')]) None =
   Inr \<lparr>valid = False,
        verrors = Some [additional_error ''.query'' ''#/properties/query'' ''foo'']\<rparr>"
  by code_simp



subsection \<open>The keyword oneOf\<close>

lemma schema_object_code:
  "ajv_code e opts (SchemaObject j) dp sp d =
     (fst (run_schema e opts j d), map (relocate dp sp) (snd (run_schema e opts j d)))"
  by (simp split: prod.splits)

text \<open>
  Over schema objects that leave the value as it is, the loop ends with \<^verbatim>\<open>valid\<close> set
  exactly when one schema matches in all, the ones before the loop included.
\<close>

lemma oneOf_loop_step:
  "fst (snd (snd (oneOf_loop (f # fs) i dp sp d prev passing))) =
     (if snd (f dp (sp @ ''/oneOf/'' @ string_of_nat i) d) = [] \<and> prev then False
      else fst (snd (snd (oneOf_loop fs (Suc i) dp sp
             (fst (f dp (sp @ ''/oneOf/'' @ string_of_nat i) d))
             (prev \<or> snd (f dp (sp @ ''/oneOf/'' @ string_of_nat i) d) = [])
             (if snd (f dp (sp @ ''/oneOf/'' @ string_of_nat i) d) = [] then JNum (int i)
              else passing)))))"
  by (simp split: prod.splits)

lemma oneOf_loop_schemas:
  assumes "\<forall>sch \<in> set js. fst (run_schema e opts (Some sch) d) = d"
  shows "fst (snd (snd (oneOf_loop (map (\<lambda>sch. ajv_code e opts (SchemaObject (Some sch))) js)
            i dp sp d prev passing))) =
         (if prev then length (filter (\<lambda>sch. matches e opts sch d) js) = 0
          else length (filter (\<lambda>sch. matches e opts sch d) js) = 1)"
  using assms
proof (induction js arbitrary: i prev passing)
  case Nil
  then show ?case by simp
next
  case (Cons sch js)
  let ?f = "ajv_code e opts (SchemaObject (Some sch))"
  let ?fs = "map (\<lambda>sch. ajv_code e opts (SchemaObject (Some sch))) js"
  let ?n = "length (filter (\<lambda>sch. matches e opts sch d) js)"
  have same: "fst (?f dp sp' d) = d" for sp'
    using Cons.prems by (simp add: schema_object_code del: ajv_code.simps)
  have pass: "(snd (?f dp sp' d) = []) = matches e opts sch d" for sp'
    by (simp add: schema_object_code matches_def del: ajv_code.simps)
  have rest: "\<forall>sch \<in> set js. fst (run_schema e opts (Some sch) d) = d" using Cons.prems by simp
  have ih: "fst (snd (snd (oneOf_loop ?fs i' dp sp d prev' passing'))) =
         (if prev' then ?n = 0 else ?n = 1)" for i' prev' passing'
    by (rule Cons.IH[OF rest])
  have step: "fst (snd (snd (oneOf_loop (?f # ?fs) i dp sp d prev passing))) =
     (if matches e opts sch d \<and> prev then False
      else (if prev \<or> matches e opts sch d then ?n = 0 else ?n = 1))"
    unfolding oneOf_loop_step same pass ih ..
  have count: "length (filter (\<lambda>sch. matches e opts sch d) (sch # js)) =
      (if matches e opts sch d then Suc ?n else ?n)"
    by simp
  have "map (\<lambda>sch. ajv_code e opts (SchemaObject (Some sch))) (sch # js) = ?f # ?fs"
    by (simp del: ajv_code.simps)
  then show ?case
    unfolding count using step by (simp del: ajv_code.simps oneOf_loop.simps)
qed

lemma oneOf_schemas_valid:
  assumes "\<forall>sch \<in> set js. fst (run_schema e opts (Some sch) d) = d"
  shows "(snd (ajv_code e opts (OneOfSchema (map (\<lambda>sch. SchemaObject (Some sch)) js)) dp sp d) = []) =
     (length (filter (\<lambda>sch. matches e opts sch d) js) = 1)"
proof -
  have code: "ajv_code e opts (OneOfSchema (map (\<lambda>sch. SchemaObject (Some sch)) js)) =
      oneOf_code (map (\<lambda>sch. ajv_code e opts (SchemaObject (Some sch))) js)"
    by (simp only: ajv_code.simps(3) map_map comp_def)
  obtain d' subs ok passing where loop:
    "oneOf_loop (map (\<lambda>sch. ajv_code e opts (SchemaObject (Some sch))) js) 0 dp sp d False JNull =
       (d', subs, ok, passing)"
    by (metis prod_cases4)
  from oneOf_loop_schemas[OF assms, of 0 dp sp False JNull] loop
  have "ok = (length (filter (\<lambda>sch. matches e opts sch d) js) = 1)" by simp
  then show ?thesis
    unfolding code using loop by (simp add: oneOf_code_def del: ajv_code.simps)
qed

text \<open>
  C1, as amended. For an operation with at least one JSON response schema, registered
  under an operationId of its own, and options under which Ajv does not rewrite the
  payload: validateResponse returns a result, and it is valid exactly when the payload
  matches exactly one of the collected schemas. A payload that matches two of them is
  rejected.
\<close>

theorem response_valid_iff_exactly_one:
  assumes "new_OpenAPIValidator R e def_arg opts_arg = Inr this"
    and "operation \<in> set (getOperations (router this))"
    and "distinct (listing_keys (getOperations (router this)))"
    and "operationId operation = Some opId" and "opId \<noteq> []"
    and "responses operation = Some rs" and "responseSchemas rs \<noteq> []"
    and "\<forall>sch \<in> set (responseSchemas rs). fst (run_schema e (ajvOpts this) (Some sch) payload) = payload"
  shows "\<exists>r this'. validateResponse this payload (OperationObject operation) = Inr (r, this') \<and>
     (valid r \<longleftrightarrow>
        length (filter (\<lambda>sch. matches e (ajvOpts this) sch payload) (responseSchemas rs)) = 1)"
proof -
  let ?schema = "OneOfSchema (map (\<lambda>sch. SchemaObject (Some sch)) (responseSchemas rs))"
  have key: "registry_key (operationId operation) = opId"
    using assms(4) by (simp add: registry_key_def)
  from constructed_response_validator[OF assms(1-3)] key
  have reg: "response_validator e (ajvOpts this) operation = Inr (responseValidators this opId)"
    by simp
  obtain v where c: "compile e (ajvOpts this) ?schema = Inr v"
    using reg assms(6,7) by (cases "compile e (ajvOpts this) ?schema") (auto simp: response_validator_def)
  have v: "responseValidators this opId = Some v" "compile e (ajvOpts this) ?schema = Inr v"
    using reg c assms(6,7) by (simp_all add: response_validator_def)
  have run: "run v = ajv_code e (ajvOpts this) ?schema [] ''#''"
    using compile_vschema[OF v(2)] by simp
  have ok: "(snd (run v payload) = []) =
      (length (filter (\<lambda>sch. matches e (ajvOpts this) sch payload) (responseSchemas rs)) = 1)"
    unfolding run by (rule oneOf_schemas_valid[OF assms(8)])
  obtain d' v' where call: "call_validate v payload = (d', v')" by (cases "call_validate v payload")
  from call_validate_errors[OF call]
  have errs: "(case errors v' of None \<Rightarrow> [] | Some es \<Rightarrow> es) = snd (run v payload)" by simp
  have "validateResponse this payload (OperationObject operation) =
      Inr (finish_result (snd (run v payload)),
           this\<lparr>responseValidators := (responseValidators this)(opId \<mapsto> v')\<rparr>)"
    using assms(4,5) v(1) call errs
    by (simp add: validateResponse_def resolve_response_operation_def
        getResponseValidatorForOperation_def)
  moreover have "valid (finish_result (snd (run v payload))) = (snd (run v payload) = [])"
    by (simp add: finish_result_def)
  ultimately show ?thesis using ok by auto
qed

theorem response_valid_iff_exactly_one_witness:
  "new_OpenAPIValidator (\<lambda>d. sample_router sample_operations) sample_ajv JNull None =
     Inr (projr sample_validator) \<and>
   responses listPets_operation \<noteq> None \<and>
   responseSchemas (the (responses listPets_operation)) = [JObj [(''type'', JStr ''object'')], JObj []] \<and>
   (\<exists>r this'. validateResponse (projr sample_validator) (JStr ''not found'')
        (OperationObject listPets_operation) = Inr (r, this') \<and> valid r)"
proof -
  let ?rs = "the (responses listPets_operation)"
  have mem: "listPets_operation \<in> set (getOperations (router (projr sample_validator)))"
    by (simp add: sample_listing) (simp add: sample_operations_def)
  have id: "operationId listPets_operation = Some ''listPets''" and ne: "''listPets'' \<noteq> []"
    and rs: "responses listPets_operation = Some ?rs"
    by (simp_all add: listPets_operation_def)
  have schemas: "responseSchemas ?rs = [JObj [(''type'', JStr ''object'')], JObj []]"
    by (simp add: listPets_operation_def responseSchemas_def response_schema_def)
  then have some: "responseSchemas ?rs \<noteq> []" by simp
  have pure: "\<forall>sch \<in> set (responseSchemas ?rs).
      fst (run_schema sample_ajv (ajvOpts (projr sample_validator)) (Some sch) (JStr ''not found'')) =
        JStr ''not found''"
    by (simp add: schemas) (simp add: sample_ajv_def sample_run_schema_def)
  have one: "length (filter (\<lambda>sch. matches sample_ajv (ajvOpts (projr sample_validator)) sch (JStr ''not found''))
      (responseSchemas ?rs)) = 1"
    by (simp add: schemas) (simp add: matches_def sample_ajv_def sample_run_schema_def)
  from response_valid_iff_exactly_one[OF sample_validator_made mem sample_listing_distinct id ne rs some pure]
    one sample_validator_made rs schemas
  show ?thesis by auto
qed

text \<open>
  C1 as stated fails: the payload \<^verbatim>\<open>{}\<close> matches the schema of 200 and the schema of
  404 of \<^verbatim>\<open>listPets\<close>, and validateResponse rejects it with the error of \<^verbatim>\<open>oneOf\<close>.
\<close>

theorem matching_two_schemas_counterexample:
  "matches sample_ajv default_ajvOpts (JObj [(''type'', JStr ''object'')]) (JObj []) \<and>
   matches sample_ajv default_ajvOpts (JObj []) (JObj []) \<and>
   validateResponse_result sample_validator (JObj []) (OperationObject listPets_operation) =
   Inr \<lparr>valid = False, verrors = Some [oneOf_error [] ''#'' (JArr [JNum 0, JNum 1])]\<rparr>"
  by code_simp



subsection \<open>Where the errors of a compiled schema come from\<close>

lemma rules_of_subset: "set (rules_of flags compiled) \<subseteq> set compiled"
  by (auto simp: rules_of_def dest: set_zip_rightD)

lemma properties_code_errors:
  assumes "\<And>k f sp' v err. (k, f) \<in> set ps \<Longrightarrow>
             err \<in> set (snd (f (dp @ getProperty k) sp' v)) \<Longrightarrow> Q err"
    and "\<And>k. k \<in> set req \<Longrightarrow> Q (required_error dp sp k)"
  shows "err \<in> set (snd (properties_code opts req ps dp sp kvs)) \<Longrightarrow> Q err"
  using assms(1)
proof (induction ps arbitrary: kvs)
  case Nil
  then show ?case by simp
next
  case (Cons p ps)
  obtain k f where p: "p = (k, f)" by (cases p)
  have sub: "\<And>k f sp' v err. (k, f) \<in> set ps \<Longrightarrow>
             err \<in> set (snd (f (dp @ getProperty k) sp' v)) \<Longrightarrow> Q err"
    using Cons.prems(2) by (meson list.set_intros(2))
  have here: "\<And>sp' v err. err \<in> set (snd (f (dp @ getProperty k) sp' v)) \<Longrightarrow> Q err"
    using Cons.prems(2)[of k f] p by simp
  show ?case
  proof (cases "js_get kvs k")
    case None
    obtain kvs' es' where rest: "properties_code opts req ps dp sp kvs = (kvs', es')"
      by (cases "properties_code opts req ps dp sp kvs")
    have es': "err \<in> set es' \<Longrightarrow> Q err"
      using Cons.IH[OF _ sub, of kvs] rest by simp
    from Cons.prems(1) p None rest
    have "(k \<in> set req \<and> err = required_error dp sp k) \<or> err \<in> set es'"
      by (auto split: if_splits)
    then show ?thesis using es' assms(2) by blast
  next
    case (Some v)
    obtain v' es where run: "f (dp @ getProperty k) (sp @ ''/properties/'' @ escapeFragment k) v = (v', es)"
      by (cases "f (dp @ getProperty k) (sp @ ''/properties/'' @ escapeFragment k) v")
    have es: "err \<in> set es \<Longrightarrow> Q err" using here[of err _ v] run by (metis snd_conv)
    obtain kvs' es' where rest: "properties_code opts req ps dp sp (store k v v' kvs) = (kvs', es')"
      by (cases "properties_code opts req ps dp sp (store k v v' kvs)")
    have es': "err \<in> set es' \<Longrightarrow> Q err"
      using Cons.IH[OF _ sub, of "store k v v' kvs"] rest by simp
    from Cons.prems(1) p Some run rest have "err \<in> set es \<or> err \<in> set es'"
      by (auto split: if_splits)
    then show ?thesis using es es' by blast
  qed
qed

lemma object_code_errors:
  assumes "\<And>k f sp' v err. (k, f) \<in> set rules \<Longrightarrow>
             err \<in> set (snd (f (dp @ getProperty k) sp' v)) \<Longrightarrow> Q err"
    and "Q (type_error dp sp ''object'')"
    and "\<And>k. k \<in> set req \<Longrightarrow> Q (required_error dp sp k)"
    and "\<And>k. k \<in> set req \<Longrightarrow> Q (required_error dp sp (getProperty k))"
    and "\<And>k. Q (additional_error dp sp k)"
    and "err \<in> set (snd (object_code opts ap names rules req dp sp d))"
  shows "Q err"
proof (cases d)
  case (JObj kvs)
  let ?missing = "filter (\<lambda>k. js_get kvs k = None) (required_early names (map fst rules) req)"
  let ?req = "if allErrors opts then map (required_error dp sp) ?missing
              else map (\<lambda>k. required_error dp sp (getProperty k)) (take 1 ?missing)"
  let ?add = "map (additional_error dp sp) (filter (\<lambda>k. k \<notin> set names) (map fst kvs))"
  have early: "set ?missing \<subseteq> set req"
    by (auto simp: required_early_def split: if_splits)
  have r: "x \<in> set ?req \<Longrightarrow> Q x" for x
    using assms(3,4) early by (auto split: if_splits dest!: in_set_takeD)
  have a: "x \<in> set ?add \<Longrightarrow> Q x" for x using assms(5) by auto
  have p: "x \<in> set (snd (properties_code opts req rules dp sp kvs)) \<Longrightarrow> Q x" for x
    using properties_code_errors[of rules dp Q req sp x opts kvs] assms(1,3) by blast
  have "err \<in> set ?req \<or> err \<in> set ?add \<or> err \<in> set (snd (properties_code opts req rules dp sp kvs))"
    using assms(6) JObj
    by (auto simp: object_code_def Let_def split: if_splits prod.splits dest: in_set_takeD)
  then show ?thesis using r a p by blast
qed (use assms(2,6) in \<open>simp_all add: object_code_def\<close>)

lemma oneOf_loop_errors:
  assumes "\<forall>f \<in> set fs. \<forall>sp' d' err. err \<in> set (snd (f dp sp' d')) \<longrightarrow> Q err"
  shows "err \<in> set (fst (snd (oneOf_loop fs i dp sp d prev passing))) \<Longrightarrow> Q err"
  using assms
proof (induction fs arbitrary: i d prev passing)
  case Nil
  then show ?case by simp
next
  case (Cons f fs)
  obtain d1 es where run: "f dp (sp @ ''/oneOf/'' @ string_of_nat i) d = (d1, es)"
    by (cases "f dp (sp @ ''/oneOf/'' @ string_of_nat i) d")
  have es: "err \<in> set es \<Longrightarrow> Q err"
    using Cons.prems(2) run by (metis list.set_intros(1) snd_conv)
  have sub: "\<forall>f \<in> set fs. \<forall>sp' d' err. err \<in> set (snd (f dp sp' d')) \<longrightarrow> Q err"
    using Cons.prems(2) by simp
  let ?next = "oneOf_loop fs (Suc i) dp sp d1 (prev \<or> es = []) (if es = [] then JNum (int i) else passing)"
  have later: "err \<in> set (fst (snd ?next)) \<Longrightarrow> Q err"
    by (rule Cons.IH[OF _ sub])
  from Cons.prems(1) run have "err \<in> set es \<or> err \<in> set (fst (snd ?next))"
    by (auto split: if_splits prod.splits)
  then show ?case using es later by blast
qed

lemma oneOf_code_errors:
  assumes "\<And>f sp' d' err. f \<in> set fs \<Longrightarrow> err \<in> set (snd (f dp sp' d')) \<Longrightarrow> Q err"
    and "\<And>passing. Q (oneOf_error dp sp passing)"
    and "err \<in> set (snd (oneOf_code fs dp sp d))"
  shows "Q err"
proof -
  from assms(3) have "err \<in> set (fst (snd (oneOf_loop fs 0 dp sp d False JNull))) \<or>
      (\<exists>passing. err = oneOf_error dp sp passing)"
    by (auto simp: oneOf_code_def split: prod.splits if_splits)
  then show ?thesis
    using oneOf_loop_errors[of fs dp Q err 0 sp d False JNull] assms(1,2) by blast
qed

text \<open>
  A property of errors that the errors of the schema objects have where they are placed,
  that the errors of the four keywords have, and that passes from a property to the
  object around it, holds of every error of a compiled schema.
\<close>

lemma ajv_code_errors:
  fixes Q :: "string \<Rightarrow> error_object \<Rightarrow> bool"
  assumes engine: "\<And>j d dp sp err. err \<in> set (snd (run_schema e opts j d)) \<Longrightarrow> Q dp (relocate dp sp err)"
    and ty: "\<And>dp sp. Q dp (type_error dp sp ''object'')"
    and rq: "\<And>dp sp k. Q dp (required_error dp sp k)"
    and ad: "\<And>dp sp k. Q dp (additional_error dp sp k)"
    and oo: "\<And>dp sp passing. Q dp (oneOf_error dp sp passing)"
    and up: "\<And>dp k err. Q (dp @ getProperty k) err \<Longrightarrow> Q dp err"
  shows "err \<in> set (snd (ajv_code e opts s dp sp d)) \<Longrightarrow> Q dp err"
proof (induction s arbitrary: dp sp d err)
  case (SchemaObject j)
  then show ?case using engine by (auto simp: schema_object_code simp del: ajv_code.simps)
next
  case (ObjectSchema t ap props req)
  have sub: "Q dp err'"
    if "(k, f) \<in> set (rules_of (map (\<lambda>p. nonEmptySchema e opts (snd p)) props)
                         (map (map_prod id (ajv_code e opts)) props))"
    "err' \<in> set (snd (f (dp @ getProperty k) sp' v))" for k f sp' v err'
  proof -
    from that(1) rules_of_subset have "(k, f) \<in> set (map (map_prod id (ajv_code e opts)) props)"
      by blast
    then obtain s where s: "(k, s) \<in> set props" "f = ajv_code e opts s" by auto
    have "s \<in> Basic_BNFs.snds (k, s)" by simp
    from ObjectSchema.IH[OF s(1) this] that(2) s(2) have "Q (dp @ getProperty k) err'" by blast
    then show ?thesis by (rule up)
  qed
  show ?case
    using ObjectSchema.prems
    by (simp only: ajv_code.simps) (rule object_code_errors[where Q = "Q dp", OF sub ty rq rq ad])
next
  case (OneOfSchema ss)
  have sub: "Q dp err'" if "f \<in> set (map (ajv_code e opts) ss)" "err' \<in> set (snd (f dp sp' d'))"
    for f sp' d' err'
    using that OneOfSchema.IH by auto
  show ?case
    using OneOfSchema.prems
    by (simp only: ajv_code.simps) (rule oneOf_code_errors[where Q = "Q dp", OF sub oo])
qed


lemma ajv_code_dataPath:
  "err \<in> set (snd (ajv_code e opts s dp sp d)) \<Longrightarrow> \<exists>x. dataPath err = dp @ x"
  by (rule ajv_code_errors[where Q = "\<lambda>dp err. \<exists>x. dataPath err = dp @ x"])
     (auto simp: relocate_def type_error_def required_error_def additional_error_def oneOf_error_def)



subsection \<open>A raw body that is not JSON\<close>







subsection \<open>A required body that is missing\<close>

lemma set_uniq: "set (uniq xs) = set xs"
  by (simp add: uniq_def)

lemma add_parameter_required:
  assumes "s = ObjectSchema t ap props req" "set req \<subseteq> fst ` set props" "map fst props = names"
  shows "\<exists>t' ap' props' req'. add_parameter s param = ObjectSchema t' ap' props' req' \<and>
     set req' \<subseteq> fst ` set props' \<and> map fst props' = names"
proof (cases "map_of props (location_name (param_in param))")
  case None
  then show ?thesis using assms by (simp add: add_parameter_def)
next
  case (Some target)
  let ?loc = "location_name (param_in param)"
  from Some have loc: "?loc \<in> set (map fst props)"
    by (metis map_of_eq_None_iff option.distinct(1) set_map)
  have keys: "map fst (AList.update ?loc new props) = map fst props" for new
    using loc by (simp add: update_keys)
  have "fst ` set (AList.update ?loc new props) = fst ` set props" for new
    using keys[of new] by (metis set_map)
  then show ?thesis
    using assms Some loc keys by (auto simp: add_parameter_def Let_def set_uniq)
qed

lemma foldl_add_parameter_required:
  "s = ObjectSchema t ap props req \<Longrightarrow> set req \<subseteq> fst ` set props \<Longrightarrow> map fst props = names \<Longrightarrow>
     \<exists>t' ap' props' req'. foldl add_parameter s ps = ObjectSchema t' ap' props' req' \<and>
       set req' \<subseteq> fst ` set props' \<and> map fst props' = names"
proof (induction ps arbitrary: s t ap props req)
  case Nil
  then show ?case by simp
next
  case (Cons p ps)
  from add_parameter_required[OF Cons.prems, of p] obtain t' ap' props' req' where
    "add_parameter s p = ObjectSchema t' ap' props' req'" "set req' \<subseteq> fst ` set props'"
    "map fst props' = names"
    by blast
  from Cons.IH[OF this] show ?case by simp
qed

lemma paramsSchema_required:
  "\<exists>t ap props req. paramsSchema operation = ObjectSchema t ap props req \<and>
     set req \<subseteq> set [''path'', ''query'', ''header'', ''cookie'']"
proof -
  let ?literal = "[(''path'', ObjectSchema None False [] []), (''query'', ObjectSchema None False [] []),
        (''header'', ObjectSchema None True [] []), (''cookie'', ObjectSchema None True [] [])]"
  let ?names = "[''path'', ''query'', ''header'', ''cookie'']"
  have lit: "paramsSchema_literal = ObjectSchema (Some ''Request'') True ?literal []"
    by (simp only: paramsSchema_literal_def)
  have none: "set [] \<subseteq> fst ` set ?literal" by simp
  have names: "map fst ?literal = ?names" by simp
  from foldl_add_parameter_required[OF lit none names, of "parameters operation"]
  obtain t ap props req where
    p: "foldl add_parameter paramsSchema_literal (parameters operation) = ObjectSchema t ap props req"
      "set req \<subseteq> fst ` set props" "map fst props = ?names"
    by (elim exE conjE)
  have "fst ` set props = set (map fst props)" by simp
  also have "\<dots> = set ?names" by (simp only: p(3))
  finally have "set req \<subseteq> set ?names" using p(2) by (simp only:)
  with p(1) show ?thesis unfolding paramsSchema_def by (intro exI conjI)
qed

lemma getProperty_not_empty: "getProperty k \<noteq> []"
  by (simp add: getProperty_def)

lemma location_segments:
  "getProperty ''path'' = ''.path''" "getProperty ''query'' = ''.query''"
  "getProperty ''header'' = ''.header''" "getProperty ''cookie'' = ''.cookie''"
  "getProperty ''requestBody'' = ''.requestBody''"
  by (simp_all add: getProperty_def IDENTIFIER_def is_alpha_def is_digit_def)

text \<open>No error of a parameter validator says that the request body is missing.\<close>

lemma params_errors_not_body:
  assumes "err \<in> set (snd (ajv_code e opts (paramsSchema operation) [] sp d))"
  shows "\<not> requestBody_missing err"
proof -
  from paramsSchema_required[of operation] obtain t ap props req where
    p: "paramsSchema operation = ObjectSchema t ap props req"
      "set req \<subseteq> set [''path'', ''query'', ''header'', ''cookie'']"
    by (elim exE conjE)
  have inner: "\<not> requestBody_missing err'"
    if "(k, f) \<in> set (rules_of (map (\<lambda>p. nonEmptySchema e opts (snd p)) props)
                         (map (map_prod id (ajv_code e opts)) props))"
      "err' \<in> set (snd (f ([] @ getProperty k) sp' v))" for k f sp' v err'
  proof -
    from that(1) rules_of_subset have "(k, f) \<in> set (map (map_prod id (ajv_code e opts)) props)"
      by blast
    then obtain s where "f = ajv_code e opts s" by auto
    with that(2) ajv_code_dataPath[of err' e opts s "getProperty k" sp' v]
    obtain x where "dataPath err' = getProperty k @ x" by auto
    then show ?thesis using getProperty_not_empty[of k] by (simp add: requestBody_missing_def)
  qed
  have req: "\<not> requestBody_missing (required_error [] sp k)" if "k \<in> set req" for k
    using that p(2) by (auto simp: requestBody_missing_def required_error_def)
  have dotted: "\<not> requestBody_missing (required_error [] sp (getProperty k))" if "k \<in> set req" for k
    using that p(2) by (auto simp: requestBody_missing_def required_error_def location_segments)
  show ?thesis
    using assms unfolding p(1)
    by (simp only: ajv_code.simps)
       (rule object_code_errors[where Q = "\<lambda>err. \<not> requestBody_missing err", OF inner _ req dotted],
        auto simp: requestBody_missing_def type_error_def additional_error_def)
qed

text \<open>
  What the body validator finds when the object has no \<^verbatim>\<open>requestBody\<close>: one error. The
  keyword \<^verbatim>\<open>properties\<close> reports it, by name, when the body schema has rules; the
  keyword \<^verbatim>\<open>required\<close> reports it otherwise, by path segment unless Ajv collects all
  errors.
\<close>

lemma missing_body_run:
  "map_of kvs ''requestBody'' = None \<Longrightarrow>
     object_code opts True [''requestBody''] (rules_of [ruled] [(''requestBody'', f)])
         [''requestBody''] dp sp (JObj kvs) =
       (JObj kvs, [required_error dp sp
                     (if ruled \<or> allErrors opts then ''requestBody'' else ''.requestBody'')])"
  by (cases ruled)
     (simp_all add: object_code_def Let_def rules_of_def required_early_def js_get_names
        location_segments)

lemma run_two_validators:
  "run_validators [v1, v2] d errs =
     ([v1\<lparr>errors := (if snd (run v1 d) = [] then None else Some (snd (run v1 d)))\<rparr>,
       v2\<lparr>errors := (if snd (run v2 (fst (run v1 d))) = [] then None
                      else Some (snd (run v2 (fst (run v1 d)))))\<rparr>],
      fst (run v2 (fst (run v1 d))),
      errs @ snd (run v1 d) @ snd (run v2 (fst (run v1 d))))"
  by (simp add: call_validate_def split: prod.splits)

lemma only_json_content:
  "map_of content ''application/json'' = Some jsonbody \<Longrightarrow>
     (length (map fst content) = 1) = (map fst content = [''application/json''])"
  by (cases content) (auto split: if_splits)

text \<open>
  C5. For an operation whose request body has a schema under application/json, listed
  under an operationId of its own: the body schema that is compiled has requestBody in
  \<^verbatim>\<open>required\<close> exactly when application/json is the only media type declared, and an
  empty \<^verbatim>\<open>required\<close> otherwise. In the first case a request without a body gets an
  invalid result whose first error says that requestBody is required, and that is the
  only error that says so. The error shows the property as \<^verbatim>\<open>requestBody\<close>, or as
  \<^verbatim>\<open>.requestBody\<close> where the body schema has no rules and Ajv stops at the first error.
\<close>

theorem json_only_body_is_required:
  assumes "new_OpenAPIValidator R e def_arg opts_arg = Inr this"
    and "operation \<in> set (getOperations (router this))"
    and "distinct (listing_keys (getOperations (router this)))"
    and "operationId operation = Some opId" and "opId \<noteq> []"
    and "requestBody operation = Some rb"
    and "map_of (rb_content rb) ''application/json'' = Some jsonbody"
    and "media_schema jsonbody = Some sch" and "truthy sch"
  shows "\<exists>bv pv. requestValidators this opId = Some [bv, pv] \<and>
     vschema bv = requestBodySchema rb sch \<and>
     required (requestBodySchema rb sch) =
       (if map fst (rb_content rb) = [''application/json''] then [''requestBody''] else []) \<and>
     (map fst (rb_content rb) = [''application/json''] \<longrightarrow>
      resolve_request_operation this req arg = Some operation \<longrightarrow>
      body req = None \<longrightarrow>
      parsed_requestBody (parseRequest (router this) req (path operation)) = None \<longrightarrow>
      (\<exists>r this' first rest. validateRequest js this req arg = Inr (r, this') \<and>
         \<not> valid r \<and>
         verrors r = Some (first # rest) \<and>
         first = required_error [] ''#''
                   (if has_rules e (ajvOpts this) (Some sch) \<or> allErrors (ajvOpts this)
                    then ''requestBody'' else ''.requestBody'') \<and>
         requestBody_missing first \<and>
         length (filter requestBody_missing (first # rest)) = 1))"
proof -
  let ?parsed = "parseRequest (router this) req (path operation)"
  let ?d = "request_parameters operation ?parsed"
  let ?first = "required_error [] ''#''
                   (if has_rules e (ajvOpts this) (Some sch) \<or> allErrors (ajvOpts this)
                    then ''requestBody'' else ''.requestBody'')"
  have key: "registry_key (operationId operation) = opId"
    using assms(4) by (simp add: registry_key_def)
  from constructed_request_validators[OF assms(1-3)] key obtain vs where
    vs: "request_validators e (ajvOpts this) operation = Inr vs" "requestValidators this opId = Some vs"
    by auto
  from request_validators_shape[OF vs(1)] obtain bvs pv where
    sh: "vs = bvs @ [pv]" "body_validators e (ajvOpts this) operation = Inr bvs"
      "compile e ((ajvOpts this)\<lparr>coerceTypes := True\<rparr>) (paramsSchema operation) = Inr pv"
    by blast
  from sh(2) assms(6-9) obtain bv where
    bv: "bvs = [bv]" "compile e (ajvOpts this) (requestBodySchema rb sch) = Inr bv"
    by (auto simp: body_validators_def split: sum.splits)
  have reg: "requestValidators this opId = Some [bv, pv]" using vs(2) sh(1) bv(1) by simp
  have sch: "vschema bv = requestBodySchema rb sch" using compile_vschema[OF bv(2)] by simp
  have required: "required (requestBodySchema rb sch) =
       (if map fst (rb_content rb) = [''application/json''] then [''requestBody''] else [])"
    using only_json_content[OF assms(7)] by (simp add: requestBodySchema_def)
  have missing: "requestBody_missing ?first"
    by (simp add: requestBody_missing_def required_error_def)
  have omitted: "\<exists>r this' rest. validateRequest js this req arg = Inr (r, this') \<and>
         \<not> valid r \<and>
         verrors r = Some (?first # rest) \<and>
         length (filter requestBody_missing (?first # rest)) = 1"
    if only: "map fst (rb_content rb) = [''application/json'']"
      and res: "resolve_request_operation this req arg = Some operation"
      and nobody: "body req = None"
      and noparsed: "parsed_requestBody ?parsed = None"
  proof -
    have run_bv: "run bv = object_code (ajvOpts this) True [''requestBody'']
        (rules_of [has_rules e (ajvOpts this) (Some sch)]
           [(''requestBody'', ajv_code e (ajvOpts this) (SchemaObject (Some sch)))])
        [''requestBody''] [] ''#''"
      using compile_vschema[OF bv(2)] only
      by (simp add: requestBodySchema_def del: ajv_code.simps(1))
    have first: "run bv (JObj ?d) = (JObj ?d, [?first])"
      unfolding run_bv by (rule missing_body_run[OF request_parameters_no_body[OF noparsed]])
    let ?rest = "snd (run pv (JObj ?d))"
    have run_pv: "run pv = ajv_code e ((ajvOpts this)\<lparr>coerceTypes := True\<rparr>) (paramsSchema operation) [] ''#''"
      using compile_vschema[OF sh(3)] by simp
    have rest: "\<forall>err \<in> set ?rest. \<not> requestBody_missing err"
      unfolding run_pv using params_errors_not_body by blast
    then have count: "filter requestBody_missing ?rest = []"
      by (simp add: filter_empty_conv)
    have lookup: "getRequestValidatorsForOperation this opId = Some [bv, pv]"
      using reg by (simp add: getRequestValidatorsForOperation_def)
    have errs0: "malformed_body_errors js operation (body req) = []"
      using nobody by (simp add: malformed_body_errors_def)
    have "\<exists>this'. validateRequest js this req arg = Inr (finish_result (?first # ?rest), this')"
      using res assms(4,5) lookup errs0 first
      by (simp add: validateRequest_def Let_def run_two_validators del: run_validators.simps)
    then obtain this' where
      call: "validateRequest js this req arg = Inr (finish_result (?first # ?rest), this')"
      by (elim exE)
    have shape: "\<not> valid (finish_result (?first # ?rest))"
      "verrors (finish_result (?first # ?rest)) = Some (?first # ?rest)"
      by (simp_all add: finish_result_def)
    have one: "length (filter requestBody_missing (?first # ?rest)) = 1"
      using count missing by simp
    from call shape one show ?thesis by (intro exI conjI)
  qed
  have final: "map fst (rb_content rb) = [''application/json''] \<longrightarrow>
      resolve_request_operation this req arg = Some operation \<longrightarrow>
      body req = None \<longrightarrow>
      parsed_requestBody (parseRequest (router this) req (path operation)) = None \<longrightarrow>
      (\<exists>r this' first rest. validateRequest js this req arg = Inr (r, this') \<and>
         \<not> valid r \<and>
         verrors r = Some (first # rest) \<and>
         first = ?first \<and>
         requestBody_missing first \<and>
         length (filter requestBody_missing (first # rest)) = 1)"
  proof (intro impI)
    assume a: "map fst (rb_content rb) = [''application/json'']"
      "resolve_request_operation this req arg = Some operation"
      "body req = None"
      "parsed_requestBody (parseRequest (router this) req (path operation)) = None"
    from omitted[OF a] obtain r this' rest where
      o: "validateRequest js this req arg = Inr (r, this')" "\<not> valid r"
      "verrors r = Some (?first # rest)"
      "length (filter requestBody_missing (?first # rest)) = 1"
      by (elim exE conjE)
    from o(1,2,3) refl[of ?first] missing o(4)
    show "\<exists>r this' first rest. validateRequest js this req arg = Inr (r, this') \<and>
         \<not> valid r \<and>
         verrors r = Some (first # rest) \<and>
         first = ?first \<and>
         requestBody_missing first \<and>
         length (filter requestBody_missing (first # rest)) = 1"
      by (intro exI conjI)
  qed
  from reg sch required final show ?thesis by (intro exI conjI)
qed

theorem json_only_body_is_required_witness:
  "new_OpenAPIValidator (\<lambda>d. sample_router sample_operations) sample_ajv JNull None =
     Inr (projr sample_validator) \<and>
   requestBody createPet_operation \<noteq> None \<and>
   map fst (rb_content (the (requestBody createPet_operation))) = [''application/json''] \<and>
   resolve_request_operation (projr sample_validator) (createPet_request None) None =
     Some createPet_operation \<and>
   (\<exists>r this' rest. validateRequest sample_js (projr sample_validator) (createPet_request None) None =
        Inr (r, this') \<and> \<not> valid r \<and>
        verrors r = Some (required_error [] ''#'' ''requestBody'' # rest) \<and>
        requestBody_missing (required_error [] ''#'' ''requestBody'') \<and>
        length (filter requestBody_missing (required_error [] ''#'' ''requestBody'' # rest)) = 1)"
proof -
  let ?rb = "the (requestBody createPet_operation)"
  let ?sch = "JObj [(''type'', JStr ''object'')]"
  let ?media = "\<lparr>media_schema = Some ?sch\<rparr>"
  let ?made = "projr sample_validator"
  have mem: "createPet_operation \<in> set (getOperations (router ?made))"
    by (simp add: sample_listing) (simp add: sample_operations_def)
  have id: "operationId createPet_operation = Some ''createPet''" and ne: "''createPet'' \<noteq> []"
    and rb: "requestBody createPet_operation = Some ?rb"
    and json: "map_of (rb_content ?rb) ''application/json'' = Some ?media"
    and sch: "media_schema ?media = Some ?sch"
    and tr: "truthy ?sch"
    and only: "map fst (rb_content ?rb) = [''application/json'']"
    by (simp_all add: createPet_operation_def)
  have res: "resolve_request_operation ?made (createPet_request None) None = Some createPet_operation"
    by (simp add: resolve_request_operation_def construct_defs sample_defs)
  have nobody: "body (createPet_request None) = None" by (simp add: createPet_request_def)
  have noparsed: "parsed_requestBody (parseRequest (router ?made)
      (createPet_request None) (path createPet_operation)) = None"
    by (simp add: construct_defs sample_defs)
  have shown: "(if has_rules sample_ajv (ajvOpts ?made) (Some ?sch) \<or> allErrors (ajvOpts ?made)
                then ''requestBody'' else ''.requestBody'') = ''requestBody''"
    by (simp add: sample_ajv_def)
  note claim = json_only_body_is_required[OF sample_validator_made mem sample_listing_distinct
      id ne rb json sch tr, of "createPet_request None" None sample_js]
  from claim have omitted: "map fst (rb_content ?rb) = [''application/json''] \<longrightarrow>
      resolve_request_operation ?made (createPet_request None) None = Some createPet_operation \<longrightarrow>
      body (createPet_request None) = None \<longrightarrow>
      parsed_requestBody (parseRequest (router ?made)
        (createPet_request None) (path createPet_operation)) = None \<longrightarrow>
      (\<exists>r this' first rest. validateRequest sample_js ?made (createPet_request None) None =
           Inr (r, this') \<and> \<not> valid r \<and>
         verrors r = Some (first # rest) \<and>
         first = required_error [] ''#''
                   (if has_rules sample_ajv (ajvOpts ?made) (Some ?sch) \<or> allErrors (ajvOpts ?made)
                    then ''requestBody'' else ''.requestBody'') \<and>
         requestBody_missing first \<and>
         length (filter requestBody_missing (first # rest)) = 1)"
    by (elim exE conjE)
  from omitted[rule_format, OF only res nobody noparsed] obtain r this' first rest where
    o: "validateRequest sample_js ?made (createPet_request None) None = Inr (r, this')"
      "\<not> valid r" "verrors r = Some (first # rest)"
      "first = required_error [] ''#''
                   (if has_rules sample_ajv (ajvOpts ?made) (Some ?sch) \<or> allErrors (ajvOpts ?made)
                    then ''requestBody'' else ''.requestBody'')"
      "requestBody_missing first"
      "length (filter requestBody_missing (first # rest)) = 1"
    by (elim exE conjE)
  from o(4) have first: "first = required_error [] ''#'' ''requestBody''"
    by (simp only: shown)
  have result: "\<exists>r this' rest. validateRequest sample_js ?made (createPet_request None) None =
        Inr (r, this') \<and> \<not> valid r \<and>
        verrors r = Some (required_error [] ''#'' ''requestBody'' # rest) \<and>
        requestBody_missing (required_error [] ''#'' ''requestBody'') \<and>
        length (filter requestBody_missing (required_error [] ''#'' ''requestBody'' # rest)) = 1"
    using o(1,2) o(3,5,6)[unfolded first] by (intro exI conjI)
  have declared: "requestBody createPet_operation \<noteq> None"
    by (simp add: createPet_operation_def)
  show ?thesis
    by (intro conjI) (rule sample_validator_made, rule declared, rule only, rule res, rule result)
qed

text \<open>
  Where the body schema is empty, as for \<^verbatim>\<open>addNote\<close>, the keyword \<^verbatim>\<open>required\<close> itself
  reports the missing body, and shows the property by its path segment.
\<close>

lemma empty_body_schema_missing:
  "validateRequest_result sample_js other_validator note_request None =
     Inr \<lparr>valid = False, verrors = Some [required_error [] ''#'' ''.requestBody'']\<rparr>"
  by code_simp

end
